theory Spec2Isabelle
  imports Main "HOL-Library.Word"
begin

unbundle bit_operations_syntax

section \<open>Data model of cuda\_control.c\<close>

text \<open>
  Pointers are addresses (natural numbers); the objects they point to live in explicit
  stores, because the most-recently-used slot and the hash chains alias the same
  \<open>GpuContext\<close>. Handles of the CUDA driver are opaque numbers. \<open>CUresult\<close> is the
  driver's status code, \<open>CUDA_SUCCESS\<close> being zero.
\<close>

type_synonym addr = nat
type_synonym CUresult = int
type_synonym CUdevice = int
type_synonym CUcontext = nat
type_synonym CUmodule = nat
type_synonym CUstream = nat

definition CUDA_SUCCESS :: CUresult where
  "CUDA_SUCCESS = 0"

text \<open>
  \<open>ERROR\<close> is \<open>elog(ERROR, ...)\<close> with the fixed part of its message. A failed
  \<open>Assert\<close> is a trap, in a build that checks assertions. The others are the faults
  of C that the model makes explicit: following a pointer to no object, calling through
  a null function pointer, indexing an array out of its bounds, a zero divisor, and the
  one signed division whose quotient does not fit (\<open>INT_MIN\<close> by \<open>-1\<close>).
\<close>

datatype error =
    ERROR string
  | AssertFailure string
  | BadPointer
  | NullCall
  | OutOfBounds
  | DivisionByZero
  | DivisionOverflow

datatype ResourceReleasePhase =
    RESOURCE_RELEASE_BEFORE_LOCKS
  | RESOURCE_RELEASE_LOCKS
  | RESOURCE_RELEASE_AFTER_LOCKS

datatype CUdevice_attribute =
    CU_DEVICE_ATTRIBUTE_MAX_THREADS_PER_BLOCK
  | CU_DEVICE_ATTRIBUTE_MAX_BLOCK_DIM_X
  | CU_DEVICE_ATTRIBUTE_MAX_BLOCK_DIM_Y
  | CU_DEVICE_ATTRIBUTE_MAX_BLOCK_DIM_Z
  | CU_DEVICE_ATTRIBUTE_MAX_GRID_DIM_X
  | CU_DEVICE_ATTRIBUTE_MAX_GRID_DIM_Y
  | CU_DEVICE_ATTRIBUTE_MAX_GRID_DIM_Z
  | CU_DEVICE_ATTRIBUTE_MAX_SHARED_MEMORY_PER_BLOCK
  | CU_DEVICE_ATTRIBUTE_TOTAL_CONSTANT_MEMORY
  | CU_DEVICE_ATTRIBUTE_WARP_SIZE
  | CU_DEVICE_ATTRIBUTE_MAX_PITCH
  | CU_DEVICE_ATTRIBUTE_MAX_REGISTERS_PER_BLOCK
  | CU_DEVICE_ATTRIBUTE_CLOCK_RATE
  | CU_DEVICE_ATTRIBUTE_TEXTURE_ALIGNMENT
  | CU_DEVICE_ATTRIBUTE_MULTIPROCESSOR_COUNT
  | CU_DEVICE_ATTRIBUTE_KERNEL_EXEC_TIMEOUT
  | CU_DEVICE_ATTRIBUTE_INTEGRATED
  | CU_DEVICE_ATTRIBUTE_CAN_MAP_HOST_MEMORY
  | CU_DEVICE_ATTRIBUTE_COMPUTE_MODE
  | CU_DEVICE_ATTRIBUTE_SURFACE_ALIGNMENT
  | CU_DEVICE_ATTRIBUTE_CONCURRENT_KERNELS
  | CU_DEVICE_ATTRIBUTE_ECC_ENABLED
  | CU_DEVICE_ATTRIBUTE_PCI_BUS_ID
  | CU_DEVICE_ATTRIBUTE_PCI_DEVICE_ID
  | CU_DEVICE_ATTRIBUTE_TCC_DRIVER
  | CU_DEVICE_ATTRIBUTE_MEMORY_CLOCK_RATE
  | CU_DEVICE_ATTRIBUTE_GLOBAL_MEMORY_BUS_WIDTH
  | CU_DEVICE_ATTRIBUTE_L2_CACHE_SIZE
  | CU_DEVICE_ATTRIBUTE_MAX_THREADS_PER_MULTIPROCESSOR
  | CU_DEVICE_ATTRIBUTE_ASYNC_ENGINE_COUNT
  | CU_DEVICE_ATTRIBUTE_UNIFIED_ADDRESSING
  | CU_DEVICE_ATTRIBUTE_PCI_DOMAIN_ID
  | CU_DEVICE_ATTRIBUTE_COMPUTE_CAPABILITY_MAJOR
  | CU_DEVICE_ATTRIBUTE_COMPUTE_CAPABILITY_MINOR
  | CU_DEVICE_ATTRIBUTE_STREAM_PRIORITIES_SUPPORTED
  | CU_DEVICE_ATTRIBUTE_GLOBAL_L1_CACHE_SUPPORTED
  | CU_DEVICE_ATTRIBUTE_LOCAL_L1_CACHE_SUPPORTED
  | CU_DEVICE_ATTRIBUTE_MAX_SHARED_MEMORY_PER_MULTIPROCESSOR
  | CU_DEVICE_ATTRIBUTE_MAX_REGISTERS_PER_MULTIPROCESSOR
  | CU_DEVICE_ATTRIBUTE_MANAGED_MEMORY
  | CU_DEVICE_ATTRIBUTE_MULTI_GPU_BOARD
  | CU_DEVICE_ATTRIBUTE_MULTI_GPU_BOARD_GROUP_ID

text \<open>
  The structures are declared in the header \<open>pg_strom.h\<close>, which is not at hand: the
  records hold the fields that \<open>cuda_control.c\<close> reads. The counters of a context
  (\<open>refcnt\<close>, \<open>num_context\<close>, \<open>cur_context\<close>) are C \<open>int\<close>s, as the \<open>int\<close>
  locals they are compared with and assigned to: 32-bit words, read as signed numbers
  by \<open>sint\<close>, on which \<open>++\<close> and \<open>--\<close> wrap around (the host is compiled with
  \<open>-fwrapv\<close>). An intrusive list (\<open>dlist_head\<close>) is the list of the addresses of its
  nodes, head first. A function pointer is kept as the fact that it is not null; what the
  function it points to does is a matter of the environment.
\<close>

record GpuContext =
  refcnt :: "32 word"
  resowner :: addr
  memcxt :: addr
  num_context :: "32 word"
  cur_context :: "32 word"
  dev_context :: "CUcontext list"
  state_list :: "addr list"
  pds_list :: "addr list"

record GpuTaskState =
  gcontext :: addr
  cuda_module :: "CUmodule option"
  tracked_tasks :: "addr list"
  running_tasks :: "addr list"
  pending_tasks :: "addr list"
  completed_tasks :: "addr list"
  cb_cleanup :: bool

record GpuTask =
  gts :: addr
  cuda_stream :: CUstream
  cuda_device :: CUdevice
  cuda_context :: CUcontext
  cb_release :: bool

record pgstrom_data_store =
  kds_fname :: "string option"

subsection \<open>What the outside world sees: the event trace\<close>

text \<open>
  Every lock operation, every logged driver call (with the status it returned), every
  warning, callback and arena operation is appended to a trace, so that the order of the
  effects of a function can be stated. \<open>elog(ERROR, ...)\<close> leaves the function: it is
  the \<open>Inl\<close> result, returned together with the state reached so far.
\<close>

datatype lock_id = gcontext_lock | gts_lock addr

datatype cuda_call =
    CuInit
  | CuDeviceGet int
  | CuCtxSetCurrent "CUcontext option"
  | CuCtxSynchronize
  | CuModuleUnload CUmodule
  | CuCtxDestroy CUcontext
  | CuCtxGetDevice
  | CuStreamCreate

datatype event =
    SpinLockAcquire lock_id
  | SpinLockRelease lock_id
  | Cuda cuda_call CUresult
  | Elog_WARNING string
  | Elog_LOG_device int bool
  | HostPinMemContextCreate addr
  | MemoryContextDelete addr
  | Cb_release addr
  | Cb_cleanup addr
  | File_unmap addr
  | Load_cuda_program addr
  | RegisterResourceReleaseCallback

subsection \<open>The environment: host globals, allocator and driver\<close>

text \<open>
  The driver and the allocator are not part of the file. The status of a logged driver
  call may depend on everything that happened before (the trace), so any sequence of
  successes and failures is covered. Attribute queries are functions of their arguments.
  \<open>crc32c\<close> stands for the \<open>INIT_CRC32C\<close>/\<open>COMP_CRC32C\<close>/\<open>FIN_CRC32C\<close> macros of the
  host, applied to the bytes of the scope pointer.

  \<open>USE_ASSERT_CHECKING\<close> tells whether the build checks assertions: without it the
  host's \<open>Assert\<close> macro expands to nothing. The release callback of a task and the
  cleanup callback of a task state are code from elsewhere, called through pointers:
  each call is one event of the trace, and \<open>cb_release_run\<close> and \<open>cb_cleanup_run\<close>
  say what the called function does to the task states (such as unlinking the task
  from the collection it is on). \<open>pgstrom_load_cuda_program_out\<close> is the module that
  the program loader of another file leaves in a task state.
\<close>

datatype CUfunction_attribute =
    CU_FUNC_ATTRIBUTE_SHARED_SIZE_BYTES
  | CU_FUNC_ATTRIBUTE_MAX_THREADS_PER_BLOCK

record env =
  CurrentResourceOwner :: addr
  crc32c :: "addr \<Rightarrow> nat"
  cuda_result :: "event list \<Rightarrow> cuda_call \<Rightarrow> CUresult"
  cuDeviceGet_out :: "int \<Rightarrow> CUdevice"
  cuCtxGetDevice_out :: "event list \<Rightarrow> CUdevice"
  cuStreamCreate_out :: "event list \<Rightarrow> CUstream"
  HostPinMemContextCreate_out :: "event list \<Rightarrow> addr"
  MemoryContextAllocZero_out :: "event list \<Rightarrow> addr"
  cuDeviceGetCount :: "CUresult \<times> int"
  cuDeviceGetName :: "CUdevice \<Rightarrow> CUresult \<times> string"
  cuDeviceTotalMem :: "CUdevice \<Rightarrow> CUresult \<times> 64 word"
  cuDeviceGetAttribute :: "CUdevice_attribute \<Rightarrow> CUdevice \<Rightarrow> CUresult \<times> 32 word"
  cuFuncGetAttribute :: "CUfunction_attribute \<Rightarrow> nat \<Rightarrow> CUresult \<times> 32 word"
  cuOccupancyMaxPotentialBlockSize ::
    "nat \<Rightarrow> 32 word \<Rightarrow> 64 word \<Rightarrow> CUresult \<times> 32 word \<times> 32 word"
  USE_ASSERT_CHECKING :: bool
  cb_release_run :: "addr \<Rightarrow> (addr \<rightharpoonup> GpuTaskState) \<Rightarrow> (addr \<rightharpoonup> GpuTaskState)"
  cb_cleanup_run :: "addr \<Rightarrow> (addr \<rightharpoonup> GpuTaskState) \<Rightarrow> (addr \<rightharpoonup> GpuTaskState)"
  pgstrom_load_cuda_program_out :: "addr \<Rightarrow> CUmodule option"

subsection \<open>The file's static variables and the stores\<close>

record cstate =
  cuda_device_ordinals :: "int list"
  cuda_max_malloc_size :: "64 word"
  cuda_max_threads_per_block :: "64 word"
  cuda_compute_capability :: "32 word"
  gcontext_hash :: "nat \<Rightarrow> addr list"
  gcontext_last :: "addr option"
  cuda_num_devices :: int
  cuda_devices :: "CUdevice list"
  gcontexts :: "addr \<rightharpoonup> GpuContext"
  gtstates :: "addr \<rightharpoonup> GpuTaskState"
  gputasks :: "addr \<rightharpoonup> GpuTask"
  pdstores :: "addr \<rightharpoonup> pgstrom_data_store"
  trace :: "event list"

type_synonym 'a result = "(error + 'a) \<times> cstate"

definition emit :: "event \<Rightarrow> cstate \<Rightarrow> cstate" where
  "emit ev s = s\<lparr>trace := trace s @ [ev]\<rparr>"

definition cuda :: "env \<Rightarrow> cuda_call \<Rightarrow> cstate \<Rightarrow> CUresult \<times> cstate" where
  "cuda e c s = (let rc = cuda_result e (trace s) c in (rc, emit (Cuda c rc) s))"

definition warn_unless_success :: "CUresult \<Rightarrow> string \<Rightarrow> cstate \<Rightarrow> cstate" where
  "warn_unless_success rc msg s = (if rc \<noteq> CUDA_SUCCESS then emit (Elog_WARNING msg) s else s)"

section \<open>pgstrom\_init\_cuda\<close>

fun init_cuda_loop :: "env \<Rightarrow> int list \<Rightarrow> nat \<Rightarrow> cstate \<Rightarrow> unit result" where
  "init_cuda_loop e [] i s = (Inr (), s)"
| "init_cuda_loop e (ordinal # cells) i s =
     (case cuda e (CuDeviceGet ordinal) s of
        (rc, s1) \<Rightarrow>
          if rc \<noteq> CUDA_SUCCESS then (Inl (ERROR ''failed on cuDeviceGet''), s1)
          else init_cuda_loop e cells (Suc i)
                 (s1\<lparr>cuda_devices := (cuda_devices s1)[i := cuDeviceGet_out e ordinal]\<rparr>))"

definition pgstrom_init_cuda :: "env \<Rightarrow> cstate \<Rightarrow> unit result" where
  "pgstrom_init_cuda e s =
     (case cuda e CuInit s of
        (rc, s1) \<Rightarrow>
          if rc \<noteq> CUDA_SUCCESS then (Inl (ERROR ''failed on cuInit''), s1)
          else
            let n = length (cuda_device_ordinals s1);
                s2 = s1\<lparr>cuda_num_devices := int n, cuda_devices := replicate n 0\<rparr>
            in init_cuda_loop e (cuda_device_ordinals s2) 0 s2)"

section \<open>The registry of execution contexts\<close>

definition gpucontext_hash_index :: "env \<Rightarrow> addr \<Rightarrow> nat" where
  "gpucontext_hash_index e r = crc32c e r mod 100"

text \<open>
  The creation of a context: the arena first (its name and sizes play no role here),
  then the zero-filled \<open>GpuContext\<close> inside it. No device sub-context is opened:
  \<open>num_context\<close> stays zero.
\<close>

definition pgstrom_create_gpucontext :: "env \<Rightarrow> addr \<Rightarrow> cstate \<Rightarrow> addr result" where
  "pgstrom_create_gpucontext e r s =
     (case (if cuda_num_devices s < 0 then pgstrom_init_cuda e s else (Inr (), s)) of
        (Inl er, s1) \<Rightarrow> (Inl er, s1)
      | (Inr _, s1) \<Rightarrow>
          let m = HostPinMemContextCreate_out e (trace s1);
              s2 = emit (HostPinMemContextCreate m) s1;
              g = MemoryContextAllocZero_out e (trace s2)
          in (Inr g,
              s2\<lparr>gcontexts := (gcontexts s2)(g \<mapsto>
                   \<lparr>refcnt = 1, resowner = r, memcxt = m, num_context = 0, cur_context = 0,
                    dev_context = [], state_list = [], pds_list = []\<rparr>)\<rparr>))"

text \<open>
  The walk over one hash chain that both the acquire operation and the cleanup hook make:
  the first context of the chain whose scope is the requested one.
\<close>

fun chain_find :: "(addr \<rightharpoonup> GpuContext) \<Rightarrow> addr \<Rightarrow> addr list \<Rightarrow> error + addr option" where
  "chain_find h r [] = Inr None"
| "chain_find h r (p # ps) =
     (case h p of
        None \<Rightarrow> Inl BadPointer
      | Some c \<Rightarrow> if resowner c = r then Inr (Some p) else chain_find h r ps)"

definition refcnt_incr :: "addr \<Rightarrow> GpuContext \<Rightarrow> cstate \<Rightarrow> cstate" where
  "refcnt_incr g c s = s\<lparr>gcontexts := (gcontexts s)(g \<mapsto> c\<lparr>refcnt := refcnt c + 1\<rparr>)\<rparr>"

definition get_slow_path :: "env \<Rightarrow> cstate \<Rightarrow> addr result" where
  "get_slow_path e s =
     (let r = CurrentResourceOwner e;
          hindex = gpucontext_hash_index e r
      in case chain_find (gcontexts s) r (gcontext_hash s hindex) of
           Inl er \<Rightarrow> (Inl er, s)
         | Inr (Some g) \<Rightarrow>
             (case gcontexts s g of
                None \<Rightarrow> (Inl BadPointer, s)
              | Some c \<Rightarrow> (Inr g, emit (SpinLockRelease gcontext_lock) (refcnt_incr g c s)))
         | Inr None \<Rightarrow>
             (case pgstrom_create_gpucontext e r s of
                (Inl er, s1) \<Rightarrow> (Inl er, s1)
              | (Inr g, s1) \<Rightarrow>
                  (Inr g,
                   emit (SpinLockRelease gcontext_lock)
                     (s1\<lparr>gcontext_hash :=
                          (gcontext_hash s1)(hindex := gcontext_hash s1 hindex @ [g])\<rparr>))))"

definition pgstrom_get_gpucontext :: "env \<Rightarrow> cstate \<Rightarrow> addr result" where
  "pgstrom_get_gpucontext e s =
     (let s1 = emit (SpinLockAcquire gcontext_lock) s
      in case gcontext_last s1 of
           None \<Rightarrow> get_slow_path e s1
         | Some l \<Rightarrow>
             (case gcontexts s1 l of
                None \<Rightarrow> (Inl BadPointer, s1)
              | Some c \<Rightarrow>
                  if resowner c = CurrentResourceOwner e
                  then (Inr l, emit (SpinLockRelease gcontext_lock) (refcnt_incr l c s1))
                  else get_slow_path e s1))"

section \<open>Drain and teardown\<close>

definition array_get :: "'a list \<Rightarrow> nat \<Rightarrow> 'a option" where
  "array_get xs i = (if i < length xs then Some (xs ! i) else None)"

fun sync_loop :: "env \<Rightarrow> CUcontext list \<Rightarrow> nat list \<Rightarrow> cstate \<Rightarrow> unit result" where
  "sync_loop e dc [] s = (Inr (), s)"
| "sync_loop e dc (i # rest) s =
     (case array_get dc i of
        None \<Rightarrow> (Inl OutOfBounds, s)
      | Some cc \<Rightarrow>
          (case cuda e (CuCtxSetCurrent (Some cc)) s of
             (rc, s1) \<Rightarrow>
               (case cuda e CuCtxSynchronize
                       (warn_unless_success rc ''failed on cuCtxSetCurrent'' s1) of
                  (rc2, s2) \<Rightarrow>
                    sync_loop e dc rest
                      (warn_unless_success rc2 ''failed on cuCtxSynchronize'' s2))))"

definition pgstrom_sync_gpucontext :: "env \<Rightarrow> addr \<Rightarrow> cstate \<Rightarrow> unit result" where
  "pgstrom_sync_gpucontext e g s =
     (case gcontexts s g of
        None \<Rightarrow> (Inl BadPointer, s)
      | Some c \<Rightarrow> sync_loop e (dev_context c) [0..<nat (sint (num_context c))] s)"

text \<open>\<open>dlist_delete\<close> of a node unlinks it from the list it is on.\<close>

definition unlink_state :: "addr \<Rightarrow> addr \<Rightarrow> cstate \<Rightarrow> cstate" where
  "unlink_state g t s =
     (case gcontexts s g of
        None \<Rightarrow> s
      | Some c \<Rightarrow> s\<lparr>gcontexts := (gcontexts s)(g \<mapsto> c\<lparr>state_list := removeAll t (state_list c)\<rparr>)\<rparr>)"

definition unlink_task :: "addr \<Rightarrow> addr \<Rightarrow> cstate \<Rightarrow> cstate" where
  "unlink_task t k s =
     (case gtstates s t of
        None \<Rightarrow> s
      | Some ts \<Rightarrow>
          s\<lparr>gtstates := (gtstates s)(t \<mapsto> ts\<lparr>tracked_tasks := removeAll k (tracked_tasks ts)\<rparr>)\<rparr>)"

definition unlink_pds :: "addr \<Rightarrow> addr \<Rightarrow> cstate \<Rightarrow> cstate" where
  "unlink_pds g p s =
     (case gcontexts s g of
        None \<Rightarrow> s
      | Some c \<Rightarrow> s\<lparr>gcontexts := (gcontexts s)(g \<mapsto> c\<lparr>pds_list := removeAll p (pds_list c)\<rparr>)\<rparr>)"

definition unlink_chain :: "addr \<Rightarrow> cstate \<Rightarrow> cstate" where
  "unlink_chain g s = s\<lparr>gcontext_hash := (\<lambda>i. removeAll g (gcontext_hash s i))\<rparr>"

text \<open>
  A call through \<open>task->cb_release\<close> or \<open>gts->cb_cleanup\<close>: the event, and what the
  called function does to the task states.
\<close>

definition call_cb_release :: "env \<Rightarrow> addr \<Rightarrow> cstate \<Rightarrow> cstate" where
  "call_cb_release e k s = (emit (Cb_release k) s)\<lparr>gtstates := cb_release_run e k (gtstates s)\<rparr>"

definition call_cb_cleanup :: "env \<Rightarrow> addr \<Rightarrow> cstate \<Rightarrow> cstate" where
  "call_cb_cleanup e t s = (emit (Cb_cleanup t) s)\<lparr>gtstates := cb_cleanup_run e t (gtstates s)\<rparr>"

text \<open>
  The loop over the tracked tasks of one task state. \<open>dlist_foreach_modify\<close> walks the
  list as it stood when the node at hand was reached, so that the body may unlink this
  node: the walk is over the list read at the start. The source calls
  \<open>task->cb_release\<close> without looking at the pointer.
\<close>

fun release_tasks :: "env \<Rightarrow> bool \<Rightarrow> addr \<Rightarrow> addr list \<Rightarrow> cstate \<Rightarrow> unit result" where
  "release_tasks e is_commit t [] s = (Inr (), s)"
| "release_tasks e is_commit t (k # rest) s =
     (case gputasks s k of
        None \<Rightarrow> (Inl BadPointer, s)
      | Some task \<Rightarrow>
          if USE_ASSERT_CHECKING e \<and> gts task \<noteq> t
          then (Inl (AssertFailure ''task->gts == gts''), s)
          else
            let s1 = unlink_task t k s;
                s2 = (if is_commit then emit (Elog_WARNING ''Unreferenced GpuTask leak'') s1
                      else s1)
            in if \<not> cb_release task then (Inl NullCall, s2)
               else release_tasks e is_commit t rest (call_cb_release e k s2))"

definition unload_module :: "env \<Rightarrow> addr \<Rightarrow> GpuTaskState \<Rightarrow> cstate \<Rightarrow> cstate" where
  "unload_module e t ts s =
     (case cuda_module ts of
        None \<Rightarrow> s
      | Some m \<Rightarrow>
          (case cuda e (CuModuleUnload m) s of
             (rc, s1) \<Rightarrow>
               (warn_unless_success rc ''failed on cuModuleUnload'' s1)
                 \<lparr>gtstates := (gtstates s1)(t \<mapsto> ts\<lparr>cuda_module := None\<rparr>)\<rparr>))"

text \<open>The four assertions at the end of the body of the outer loop.\<close>

definition check_task_lists_empty :: "env \<Rightarrow> addr \<Rightarrow> cstate \<Rightarrow> unit result" where
  "check_task_lists_empty e t s =
     (if \<not> USE_ASSERT_CHECKING e then (Inr (), s)
      else
        (case gtstates s t of
           None \<Rightarrow> (Inl BadPointer, s)
         | Some ts \<Rightarrow>
             if tracked_tasks ts \<noteq> [] then
               (Inl (AssertFailure ''dlist_is_empty(&gts->tracked_tasks)''), s)
             else if running_tasks ts \<noteq> [] then
               (Inl (AssertFailure ''dlist_is_empty(&gts->running_tasks)''), s)
             else if pending_tasks ts \<noteq> [] then
               (Inl (AssertFailure ''dlist_is_empty(&gts->pending_tasks)''), s)
             else if completed_tasks ts \<noteq> [] then
               (Inl (AssertFailure ''dlist_is_empty(&gts->completed_tasks)''), s)
             else (Inr (), s)))"

fun release_states :: "env \<Rightarrow> addr \<Rightarrow> bool \<Rightarrow> addr list \<Rightarrow> cstate \<Rightarrow> unit result" where
  "release_states e g is_commit [] s = (Inr (), s)"
| "release_states e g is_commit (t # rest) s =
     (case gtstates s t of
        None \<Rightarrow> (Inl BadPointer, s)
      | Some ts \<Rightarrow>
          if USE_ASSERT_CHECKING e \<and> gcontext ts \<noteq> g
          then (Inl (AssertFailure ''gts->gcontext == gcontext''), s)
          else
            (case release_tasks e is_commit t (tracked_tasks ts)
                    (unload_module e t ts (unlink_state g t s)) of
               (Inl er, s1) \<Rightarrow> (Inl er, s1)
             | (Inr _, s1) \<Rightarrow>
                 let s2 = (if is_commit
                           then emit (Elog_WARNING ''Unreferenced GpuTaskState leak'') s1
                           else s1)
                 in (case gtstates s2 t of
                       None \<Rightarrow> (Inl BadPointer, s2)
                     | Some ts2 \<Rightarrow>
                         let s3 = (if cb_cleanup ts2 then call_cb_cleanup e t s2 else s2)
                         in (case check_task_lists_empty e t s3 of
                               (Inl er, s4) \<Rightarrow> (Inl er, s4)
                             | (Inr _, s4) \<Rightarrow> release_states e g is_commit rest s4))))"

fun release_pds :: "addr \<Rightarrow> addr list \<Rightarrow> cstate \<Rightarrow> unit result" where
  "release_pds g [] s = (Inr (), s)"
| "release_pds g (p # rest) s =
     (case pdstores s p of
        None \<Rightarrow> (Inl BadPointer, s)
      | Some pds \<Rightarrow>
          let s1 = unlink_pds g p s
          in release_pds g rest
               (if kds_fname pds \<noteq> None then emit (File_unmap p) s1 else s1))"

fun destroy_loop :: "env \<Rightarrow> CUcontext list \<Rightarrow> nat list \<Rightarrow> cstate \<Rightarrow> unit result" where
  "destroy_loop e dc [] s = (Inr (), s)"
| "destroy_loop e dc (i # rest) s =
     (case array_get dc i of
        None \<Rightarrow> (Inl OutOfBounds, s)
      | Some cc \<Rightarrow>
          (case cuda e (CuCtxDestroy cc) s of
             (rc, s1) \<Rightarrow>
               destroy_loop e dc rest (warn_unless_success rc ''failed on cuCtxDestroy'' s1)))"

text \<open>
  The teardown proper. The file's own code changes, of the context, only its two lists,
  and the callbacks act on the task states, so the other fields of the context are read
  once. The status of the last \<open>cuCtxSetCurrent(NULL)\<close> is not looked at by the source.
  The unmapping of a data store is code from elsewhere: one event. The inner loop of the
  source names its list \<open>gst->tracked_tasks\<close> and the loop over the data stores an
  undeclared \<open>iter\<close>; they are read as \<open>gts->tracked_tasks\<close> and a local iterator.
\<close>

definition pgstrom_release_gpucontext :: "env \<Rightarrow> addr \<Rightarrow> bool \<Rightarrow> cstate \<Rightarrow> unit result" where
  "pgstrom_release_gpucontext e g is_commit s =
     (case pgstrom_sync_gpucontext e g s of
        (Inl er, s1) \<Rightarrow> (Inl er, s1)
      | (Inr _, s1) \<Rightarrow>
          (case gcontexts s1 g of
             None \<Rightarrow> (Inl BadPointer, s1)
           | Some c \<Rightarrow>
               (case release_states e g is_commit (state_list c) s1 of
                  (Inl er, s2) \<Rightarrow> (Inl er, s2)
                | (Inr _, s2) \<Rightarrow>
                    (case release_pds g (pds_list c) s2 of
                       (Inl er, s3) \<Rightarrow> (Inl er, s3)
                     | (Inr _, s3) \<Rightarrow>
                         (case destroy_loop e (dev_context c)
                                 [0..<nat (sint (num_context c))] s3 of
                            (Inl er, s4) \<Rightarrow> (Inl er, s4)
                          | (Inr _, s4) \<Rightarrow>
                              (case cuda e (CuCtxSetCurrent None) s4 of
                                 (rc, s5) \<Rightarrow>
                                   let s6 = emit (MemoryContextDelete (memcxt c)) s5
                                   in (Inr (), s6\<lparr>gcontexts := (gcontexts s6)(g := None)\<rparr>)))))))"

definition clear_last :: "addr \<Rightarrow> cstate \<Rightarrow> cstate" where
  "clear_last g s = (if gcontext_last s = Some g then s\<lparr>gcontext_last := None\<rparr> else s)"

definition pgstrom_put_gpucontext :: "env \<Rightarrow> addr \<Rightarrow> cstate \<Rightarrow> unit result" where
  "pgstrom_put_gpucontext e g s =
     (let s1 = emit (SpinLockAcquire gcontext_lock) s
      in case gcontexts s1 g of
           None \<Rightarrow> (Inl BadPointer, s1)
         | Some c \<Rightarrow>
             if USE_ASSERT_CHECKING e \<and> \<not> sint (refcnt c) > 0
             then (Inl (AssertFailure ''gcontext->refcnt > 0''), s1)
             else
               let s2 = s1\<lparr>gcontexts := (gcontexts s1)(g \<mapsto> c\<lparr>refcnt := refcnt c - 1\<rparr>)\<rparr>
               in if refcnt c - 1 = 0
                  then pgstrom_release_gpucontext e g True
                         (emit (SpinLockRelease gcontext_lock) (unlink_chain g (clear_last g s2)))
                  else (Inr (), emit (SpinLockRelease gcontext_lock) s2))"

section \<open>pgstrom\_init\_gputaststate\<close>



section \<open>pgstrom\_init\_gputask\<close>

text \<open>
  C's \<open>%\<close> on \<open>int\<close> truncates towards zero. A zero divisor traps, and so does
  \<open>INT_MIN % -1\<close>, whose quotient is not an \<open>int\<close>. C does not say whether the
  incremented cursor is stored before such a trap: the model returns the state as it
  was. The two callbacks are parameters of the source which it does not use: after
  \<open>memset(task, 0, sizeof(GpuTask))\<close> it assigns four fields, and the two function
  pointers of the task are not among them.
\<close>

definition c_rem :: "int \<Rightarrow> int \<Rightarrow> int" where
  "c_rem a b = a - b * (sgn a * sgn b * (\<bar>a\<bar> div \<bar>b\<bar>))"

definition push_tracked :: "addr \<Rightarrow> addr \<Rightarrow> cstate \<Rightarrow> cstate" where
  "push_tracked t k s =
     (case gtstates s t of
        None \<Rightarrow> s
      | Some ts \<Rightarrow> s\<lparr>gtstates := (gtstates s)(t \<mapsto> ts\<lparr>tracked_tasks := tracked_tasks ts @ [k]\<rparr>)\<rparr>)"

definition pgstrom_init_gputask ::
    "env \<Rightarrow> addr \<Rightarrow> addr \<Rightarrow> bool \<Rightarrow> bool \<Rightarrow> cstate \<Rightarrow> unit result" where
  "pgstrom_init_gputask e t k process release s =
     (case gtstates s t of
        None \<Rightarrow> (Inl BadPointer, s)
      | Some ts \<Rightarrow>
          (case gcontexts s (gcontext ts) of
             None \<Rightarrow> (Inl BadPointer, s)
           | Some c \<Rightarrow>
               if num_context c = 0 then (Inl DivisionByZero, s)
               else if sint (cur_context c) = - (2 ^ 31) \<and> sint (num_context c) = - 1
               then (Inl DivisionOverflow, s)
               else
                 let index = c_rem (sint (cur_context c)) (sint (num_context c));
                     s1 = s\<lparr>gcontexts := (gcontexts s)(gcontext ts \<mapsto>
                              c\<lparr>cur_context := cur_context c + 1\<rparr>)\<rparr>
                 in if index < 0 then (Inl OutOfBounds, s1)
                    else
                      (case array_get (dev_context c) (nat index) of
                         None \<Rightarrow> (Inl OutOfBounds, s1)
                       | Some cuctx \<Rightarrow>
                           let dev = cuCtxGetDevice_out e (trace s1)
                           in (case cuda e CuCtxGetDevice s1 of
                                 (rc, s2) \<Rightarrow>
                                   if rc \<noteq> CUDA_SUCCESS
                                   then (Inl (ERROR ''failed on cuCtxGetDevice''), s2)
                                   else
                                     (case cuda e (CuCtxSetCurrent (Some cuctx)) s2 of
                                        (rc2, s3) \<Rightarrow>
                                          if rc2 \<noteq> CUDA_SUCCESS
                                          then (Inl (ERROR ''failed on cuCtxPushCurrent''), s3)
                                          else
                                            let stream = cuStreamCreate_out e (trace s3)
                                            in (case cuda e CuStreamCreate s3 of
                                                  (rc3, s4) \<Rightarrow>
                                                    if rc3 \<noteq> CUDA_SUCCESS
                                                    then (Inl (ERROR ''failed on cuStreamCreate''), s4)
                                                    else
                                                      let s5 = s4\<lparr>gputasks := (gputasks s4)(k \<mapsto>
                                                                 \<lparr>gts = t, cuda_stream = stream,
                                                                  cuda_device = dev,
                                                                  cuda_context = cuctx,
                                                                  cb_release = False\<rparr>)\<rparr>
                                                      in (Inr (),
                                                          emit (SpinLockRelease (gts_lock t))
                                                            (push_tracked t k
                                                              (emit (SpinLockAcquire (gts_lock t)) s5)))))))))"

section \<open>The scope-boundary cleanup hook\<close>

definition gpucontext_cleanup_callback ::
    "env \<Rightarrow> ResourceReleasePhase \<Rightarrow> bool \<Rightarrow> bool \<Rightarrow> cstate \<Rightarrow> unit result" where
  "gpucontext_cleanup_callback e phase is_commit is_toplevel s =
     (let hindex = gpucontext_hash_index e (CurrentResourceOwner e)
      in if phase \<noteq> RESOURCE_RELEASE_AFTER_LOCKS then (Inr (), s)
         else
           let s1 = emit (SpinLockAcquire gcontext_lock) s
           in case chain_find (gcontexts s1) (CurrentResourceOwner e) (gcontext_hash s1 hindex) of
                Inl er \<Rightarrow> (Inl er, s1)
              | Inr None \<Rightarrow> (Inr (), emit (SpinLockRelease gcontext_lock) s1)
              | Inr (Some g) \<Rightarrow>
                  let s2 = emit (SpinLockRelease gcontext_lock) (unlink_chain g (clear_last g s1));
                      s3 = (if is_commit
                            then emit (Elog_WARNING ''Probably, someone forgot to put GpuContext'') s2
                            else s2)
                  in pgstrom_release_gpucontext e g is_commit s3)"

section \<open>The workgroup size computation\<close>

text \<open>
  The shrinking loop of the maximum-block-size mode. \<open>block_size\<close> is an \<open>int\<close>;
  the comparison is made in \<open>size_t\<close>, the type of \<open>dynamic_shmem_per_thread\<close>, so
  the three \<open>int\<close> operands are sign-extended to 64 bits and the arithmetic wraps.
  Decrementing an \<open>int\<close> below its least value is taken to wrap around. The loop has
  no other exit, so it is a partial function: \<open>None\<close> means that it does not return.
\<close>

partial_function (option) shrink_block_size ::
    "32 word \<Rightarrow> 64 word \<Rightarrow> 32 word \<Rightarrow> 32 word \<Rightarrow> 32 word option" where
  "shrink_block_size dynamic_shmem_per_block dynamic_shmem_per_thread maximum_shmem_per_block
       block_size =
     (if scast dynamic_shmem_per_block + dynamic_shmem_per_thread * scast block_size
           > (scast maximum_shmem_per_block :: 64 word)
      then shrink_block_size dynamic_shmem_per_block dynamic_shmem_per_thread
             maximum_shmem_per_block (block_size - 1)
      else Some block_size)"

text \<open>
  The result is the pair \<open>(*p_grid_size, *p_block_size)\<close>. The store to the thread-local
  \<open>__dynamic_shmem_per_thread\<close> is not modelled: nothing in the file reads it.
\<close>

definition pgstrom_compute_workgroup_size ::
    "env \<Rightarrow> cstate \<Rightarrow> nat \<Rightarrow> CUdevice \<Rightarrow> bool \<Rightarrow> 64 word \<Rightarrow> 64 word
       \<Rightarrow> (error + 64 word \<times> 64 word) option" where
  "pgstrom_compute_workgroup_size e s function device maximum_blocksize nitems
       dynamic_shmem_per_thread =
     (case cuFuncGetAttribute e CU_FUNC_ATTRIBUTE_SHARED_SIZE_BYTES function of
        (rc, dynamic_shmem_per_block) \<Rightarrow>
     if rc \<noteq> CUDA_SUCCESS then Some (Inl (ERROR ''failed on cuFuncGetAttribute''))
     else if maximum_blocksize then
       (case cuFuncGetAttribute e CU_FUNC_ATTRIBUTE_MAX_THREADS_PER_BLOCK function of
          (rc1, block_size0) \<Rightarrow>
        if rc1 \<noteq> CUDA_SUCCESS then Some (Inl (ERROR ''failed on cuFuncGetAttribute''))
        else
        (case cuDeviceGetAttribute e CU_DEVICE_ATTRIBUTE_MAX_SHARED_MEMORY_PER_BLOCK device of
           (rc2, maximum_shmem_per_block) \<Rightarrow>
         if rc2 \<noteq> CUDA_SUCCESS then Some (Inl (ERROR ''failed on cuDeviceGetAttribute''))
         else
         (case cuDeviceGetAttribute e CU_DEVICE_ATTRIBUTE_WARP_SIZE device of
            (rc3, warp_size) \<Rightarrow>
          if rc3 \<noteq> CUDA_SUCCESS then Some (Inl (ERROR ''failed on cuDeviceGetAttribute''))
          else
          (case shrink_block_size dynamic_shmem_per_block dynamic_shmem_per_thread
                  maximum_shmem_per_block block_size0 of
             None \<Rightarrow> None
           | Some block_size \<Rightarrow>
               if sint block_size < sint warp_size
               then Some (Inl (ERROR ''Expected block size is too small''))
               else if (scast block_size :: 64 word) = 0 then Some (Inl DivisionByZero)
               else Some (Inr ((nitems + scast block_size - 1) div scast block_size,
                               scast block_size))))))
     else
       (case cuOccupancyMaxPotentialBlockSize e function dynamic_shmem_per_block
               (cuda_max_threads_per_block s) of
          (rc1, grid_size, block_size) \<Rightarrow>
            if rc1 \<noteq> CUDA_SUCCESS
            then Some (Inl (ERROR ''failed on cuOccupancyMaxPotentialBlockSize''))
            else Some (Inr (scast grid_size, scast block_size))))"

section \<open>Device enumeration\<close>

text \<open>The host's \<open>Min(x, y)\<close> macro is \<open>((x) < (y) ? (x) : (y))\<close>.\<close>

definition Min_size_t :: "64 word \<Rightarrow> 64 word \<Rightarrow> 64 word" where
  "Min_size_t x y = (if x < y then x else y)"

definition Min_int :: "32 word \<Rightarrow> 32 word \<Rightarrow> 32 word" where
  "Min_int x y = (if sint x < sint y then x else y)"

definition get_attribute ::
    "env \<Rightarrow> CUdevice_attribute \<Rightarrow> CUdevice \<Rightarrow> cstate \<Rightarrow> (32 word \<Rightarrow> 'a result) \<Rightarrow> 'a result" where
  "get_attribute e attrib device s k =
     (case cuDeviceGetAttribute e attrib device of
        (rc, v) \<Rightarrow>
          if rc \<noteq> CUDA_SUCCESS then (Inl (ERROR ''failed on cuDeviceGetAttribute''), s)
          else k v)"

definition track_device_property :: "64 word \<Rightarrow> 32 word \<Rightarrow> 32 word \<Rightarrow> 32 word \<Rightarrow> cstate \<Rightarrow> cstate" where
  "track_device_property dev_mem_sz dev_max_threads_per_block dev_cap_major dev_cap_minor s =
     s\<lparr>cuda_max_malloc_size :=
         Min_size_t (cuda_max_malloc_size s) ((dev_mem_sz div 3) AND NOT (push_bit 20 1 - 1)),
       cuda_max_threads_per_block :=
         Min_size_t (cuda_max_threads_per_block s) (scast dev_max_threads_per_block),
       cuda_compute_capability :=
         Min_int (cuda_compute_capability s) (100 * dev_cap_major + dev_cap_minor)\<rparr>"

definition pgstrom_check_device_capability :: "env \<Rightarrow> int \<Rightarrow> CUdevice \<Rightarrow> cstate \<Rightarrow> bool result" where
  "pgstrom_check_device_capability e ordinal device s =
     (case cuDeviceGetName e device of
        (rc, dev_name) \<Rightarrow>
     if rc \<noteq> CUDA_SUCCESS then (Inl (ERROR ''failed on cuDeviceGetName''), s)
     else
     (case cuDeviceTotalMem e device of
        (rc1, dev_mem_sz) \<Rightarrow>
     if rc1 \<noteq> CUDA_SUCCESS then (Inl (ERROR ''failed on cuDeviceTotalMem''), s)
     else
     get_attribute e CU_DEVICE_ATTRIBUTE_MAX_THREADS_PER_BLOCK device s (\<lambda>dev_max_threads_per_block.
     get_attribute e CU_DEVICE_ATTRIBUTE_MEMORY_CLOCK_RATE device s (\<lambda>dev_mem_clk.
     get_attribute e CU_DEVICE_ATTRIBUTE_GLOBAL_MEMORY_BUS_WIDTH device s (\<lambda>dev_mem_width.
     get_attribute e CU_DEVICE_ATTRIBUTE_L2_CACHE_SIZE device s (\<lambda>dev_l2_sz.
     get_attribute e CU_DEVICE_ATTRIBUTE_COMPUTE_CAPABILITY_MAJOR device s (\<lambda>dev_cap_major.
     get_attribute e CU_DEVICE_ATTRIBUTE_COMPUTE_CAPABILITY_MINOR device s (\<lambda>dev_cap_minor.
     get_attribute e CU_DEVICE_ATTRIBUTE_MULTIPROCESSOR_COUNT device s (\<lambda>dev_mpu_nums.
     get_attribute e CU_DEVICE_ATTRIBUTE_CLOCK_RATE device s (\<lambda>dev_mpu_clk.
       let result = (if sint dev_cap_major < 3 then False else True);
           s1 = track_device_property dev_mem_sz dev_max_threads_per_block
                  dev_cap_major dev_cap_minor s
       in (Inr result, emit (Elog_LOG_device ordinal (\<not> result)) s1)))))))))))"

fun enumerate_loop :: "env \<Rightarrow> int list \<Rightarrow> cstate \<Rightarrow> unit result" where
  "enumerate_loop e [] s = (Inr (), s)"
| "enumerate_loop e (i # rest) s =
     (case cuda e (CuDeviceGet i) s of
        (rc, s1) \<Rightarrow>
          if rc \<noteq> CUDA_SUCCESS then (Inl (ERROR ''failed on cuDeviceGet''), s1)
          else
            (case pgstrom_check_device_capability e i (cuDeviceGet_out e i) s1 of
               (Inl er, s2) \<Rightarrow> (Inl er, s2)
             | (Inr ok, s2) \<Rightarrow>
                 enumerate_loop e rest
                   (if ok then s2\<lparr>cuda_device_ordinals := cuda_device_ordinals s2 @ [i]\<rparr>
                    else s2)))"

definition pgstrom_init_cuda_control :: "env \<Rightarrow> cstate \<Rightarrow> unit result" where
  "pgstrom_init_cuda_control e s =
     (case cuda e CuInit s of
        (rc, s1) \<Rightarrow>
     if rc \<noteq> CUDA_SUCCESS then (Inl (ERROR ''failed on cuInit''), s1)
     else
     (case cuDeviceGetCount e of
        (rc1, count) \<Rightarrow>
     if rc1 \<noteq> CUDA_SUCCESS then (Inl (ERROR ''failed on cuDeviceGetCount''), s1)
     else
     (case enumerate_loop e (map int [0..<nat count]) s1 of
        (Inl er, s2) \<Rightarrow> (Inl er, s2)
      | (Inr _, s2) \<Rightarrow>
          if cuda_device_ordinals s2 = []
          then (Inl (ERROR ''no CUDA device found on the system''), s2)
          else (Inr (),
                emit RegisterResourceReleaseCallback
                  (s2\<lparr>gcontext_hash := (\<lambda>i. if i < 100 then [] else gcontext_hash s2 i)\<rparr>)))))"

text \<open>The static initialisers of the file.\<close>

definition initial_state :: cstate where
  "initial_state =
     \<lparr>cuda_device_ordinals = [], cuda_max_malloc_size = 2147483647,
      cuda_max_threads_per_block = 2147483647, cuda_compute_capability = 2147483647,
      gcontext_hash = (\<lambda>i. []), gcontext_last = None, cuda_num_devices = - 1,
      cuda_devices = [], gcontexts = Map.empty, gtstates = Map.empty, gputasks = Map.empty,
      pdstores = Map.empty, trace = []\<rparr>"

section \<open>pgstrom\_device\_info\<close>

definition DEVATTR_BOOL :: int where "DEVATTR_BOOL = 1"
definition DEVATTR_INT :: int where "DEVATTR_INT = 2"
definition DEVATTR_KB :: int where "DEVATTR_KB = 3"
definition DEVATTR_MHZ :: int where "DEVATTR_MHZ = 4"
definition DEVATTR_COMP_MODE :: int where "DEVATTR_COMP_MODE = 5"
definition DEVATTR_BITS :: int where "DEVATTR_BITS = 6"

definition catalog :: "(CUdevice_attribute \<times> string \<times> int) list" where
  "catalog =
    [(CU_DEVICE_ATTRIBUTE_MAX_THREADS_PER_BLOCK, ''max threads per block'', DEVATTR_INT),
     (CU_DEVICE_ATTRIBUTE_MAX_BLOCK_DIM_X, ''Maximum block dimension X'', DEVATTR_INT),
     (CU_DEVICE_ATTRIBUTE_MAX_BLOCK_DIM_Y, ''Maximum block dimension Y'', DEVATTR_INT),
     (CU_DEVICE_ATTRIBUTE_MAX_BLOCK_DIM_Z, ''Maximum block dimension Z'', DEVATTR_INT),
     (CU_DEVICE_ATTRIBUTE_MAX_GRID_DIM_X, ''Maximum grid dimension X'', DEVATTR_INT),
     (CU_DEVICE_ATTRIBUTE_MAX_GRID_DIM_Y, ''Maximum grid dimension Y'', DEVATTR_INT),
     (CU_DEVICE_ATTRIBUTE_MAX_GRID_DIM_Z, ''Maximum grid dimension Z'', DEVATTR_INT),
     (CU_DEVICE_ATTRIBUTE_MAX_SHARED_MEMORY_PER_BLOCK, ''Maximum shared memory available per block'', DEVATTR_KB),
     (CU_DEVICE_ATTRIBUTE_TOTAL_CONSTANT_MEMORY, ''Memory available on device for __constant__'', DEVATTR_KB),
     (CU_DEVICE_ATTRIBUTE_WARP_SIZE, ''Warp size in threads'', DEVATTR_INT),
     (CU_DEVICE_ATTRIBUTE_MAX_PITCH, ''Maximum pitch in bytes allowed by memory copies'', DEVATTR_INT),
     (CU_DEVICE_ATTRIBUTE_MAX_REGISTERS_PER_BLOCK, ''Maximum number of 32bit registers available per block'', DEVATTR_INT),
     (CU_DEVICE_ATTRIBUTE_CLOCK_RATE, ''Typical clock frequency in kilohertz'', DEVATTR_MHZ),
     (CU_DEVICE_ATTRIBUTE_TEXTURE_ALIGNMENT, ''Alignment requirement for textures'', DEVATTR_INT),
     (CU_DEVICE_ATTRIBUTE_MULTIPROCESSOR_COUNT, ''Number of multiprocessors on device'', DEVATTR_INT),
     (CU_DEVICE_ATTRIBUTE_KERNEL_EXEC_TIMEOUT, ''Has kernel execution timeout'', DEVATTR_BOOL),
     (CU_DEVICE_ATTRIBUTE_INTEGRATED, ''Integrated with host memory'', DEVATTR_BOOL),
     (CU_DEVICE_ATTRIBUTE_CAN_MAP_HOST_MEMORY, ''Host memory can be mapped to CUDA address space'', DEVATTR_BOOL),
     (CU_DEVICE_ATTRIBUTE_COMPUTE_MODE, ''Compute mode'', DEVATTR_COMP_MODE),
     (CU_DEVICE_ATTRIBUTE_SURFACE_ALIGNMENT, ''Alignment requirement for surfaces'', DEVATTR_INT),
     (CU_DEVICE_ATTRIBUTE_CONCURRENT_KERNELS, ''Multiple concurrent kernel support'', DEVATTR_BOOL),
     (CU_DEVICE_ATTRIBUTE_ECC_ENABLED, ''Device has ECC support enabled'', DEVATTR_BOOL),
     (CU_DEVICE_ATTRIBUTE_PCI_BUS_ID, ''PCI bus ID of the device'', DEVATTR_INT),
     (CU_DEVICE_ATTRIBUTE_PCI_DEVICE_ID, ''PCI device ID of the device'', DEVATTR_INT),
     (CU_DEVICE_ATTRIBUTE_TCC_DRIVER, ''Device is using TCC driver model'', DEVATTR_BOOL),
     (CU_DEVICE_ATTRIBUTE_MEMORY_CLOCK_RATE, ''Peak memory clock frequency'', DEVATTR_MHZ),
     (CU_DEVICE_ATTRIBUTE_GLOBAL_MEMORY_BUS_WIDTH, ''Global memory bus width'', DEVATTR_BITS),
     (CU_DEVICE_ATTRIBUTE_L2_CACHE_SIZE, ''Size of L2 cache in bytes'', DEVATTR_KB),
     (CU_DEVICE_ATTRIBUTE_MAX_THREADS_PER_MULTIPROCESSOR, ''Maximum threads per multiprocessor'', DEVATTR_INT),
     (CU_DEVICE_ATTRIBUTE_ASYNC_ENGINE_COUNT, ''Number of asynchronous engines'', DEVATTR_INT),
     (CU_DEVICE_ATTRIBUTE_UNIFIED_ADDRESSING, ''Device shares unified address space'', DEVATTR_BOOL),
     (CU_DEVICE_ATTRIBUTE_PCI_DOMAIN_ID, ''PCI domain ID of the device'', DEVATTR_INT),
     (CU_DEVICE_ATTRIBUTE_COMPUTE_CAPABILITY_MAJOR, ''Major compute capability version number'', DEVATTR_INT),
     (CU_DEVICE_ATTRIBUTE_COMPUTE_CAPABILITY_MINOR, ''Minor compute capability version number'', DEVATTR_INT),
     (CU_DEVICE_ATTRIBUTE_STREAM_PRIORITIES_SUPPORTED, ''Device supports stream priorities'', DEVATTR_BOOL),
     (CU_DEVICE_ATTRIBUTE_GLOBAL_L1_CACHE_SUPPORTED, ''Device supports caching globals in L1'', DEVATTR_BOOL),
     (CU_DEVICE_ATTRIBUTE_LOCAL_L1_CACHE_SUPPORTED, ''Device supports caching locals in L1'', DEVATTR_BOOL),
     (CU_DEVICE_ATTRIBUTE_MAX_SHARED_MEMORY_PER_MULTIPROCESSOR, ''Maximum shared memory per multiprocessor'', DEVATTR_KB),
     (CU_DEVICE_ATTRIBUTE_MAX_REGISTERS_PER_MULTIPROCESSOR, ''Maximum number of 32bit registers per multiprocessor'', DEVATTR_INT),
     (CU_DEVICE_ATTRIBUTE_MANAGED_MEMORY, ''Device can allocate managed memory on this system'', DEVATTR_BOOL),
     (CU_DEVICE_ATTRIBUTE_MULTI_GPU_BOARD, ''Device is on a multi-GPU board'', DEVATTR_BOOL),
     (CU_DEVICE_ATTRIBUTE_MULTI_GPU_BOARD_GROUP_ID, ''Unique id if device is on a multi-GPU board'', DEVATTR_INT)]"

text \<open>
  The text a row carries, kept as the format and its argument. C's \<open>/\<close> on \<open>int\<close>
  truncates towards zero.
\<close>

datatype att_value =
    Fmt_s string
  | Fmt_bool bool
  | Fmt_d int
  | Fmt_d_KBytes int
  | Fmt_d_MHz int
  | Fmt_d_bits int
  | Fmt_zu_MBytes nat
  | Uninitialized

datatype srf = SRF_RETURN_DONE | SRF_RETURN_NEXT int string att_value

definition c_div :: "int \<Rightarrow> int \<Rightarrow> int" where
  "c_div a b = sgn a * sgn b * (\<bar>a\<bar> div \<bar>b\<bar>)"

definition format_property :: "int \<Rightarrow> 32 word \<Rightarrow> error + att_value" where
  "format_property attkind property =
     (if attkind = DEVATTR_BOOL then Inr (Fmt_bool (property \<noteq> 0))
      else if attkind = DEVATTR_INT then Inr (Fmt_d (sint property))
      else if attkind = DEVATTR_KB then Inr (Fmt_d_KBytes (c_div (sint property) 1024))
      else if attkind = DEVATTR_MHZ then Inr (Fmt_d_MHz (c_div (sint property) 1000))
      else if attkind = DEVATTR_COMP_MODE then Inr Uninitialized
      else if attkind = DEVATTR_BITS then Inr (Fmt_d_bits (sint property))
      else Inl (ERROR ''Bug? unexpected device attribute type''))"

definition device_info_row :: "env \<Rightarrow> int \<Rightarrow> nat \<Rightarrow> CUdevice \<Rightarrow> error + srf" where
  "device_info_row e dindex aindex device =
     (if aindex = 0 then
        (case cuDeviceGetName e device of
           (rc, dev_name) \<Rightarrow>
             if rc \<noteq> CUDA_SUCCESS then Inl (ERROR ''failed on cuDeviceGetName'')
             else Inr (SRF_RETURN_NEXT dindex ''Device name'' (Fmt_s dev_name)))
      else if aindex = 1 then
        (case cuDeviceTotalMem e device of
           (rc, dev_memsz) \<Rightarrow>
             if rc \<noteq> CUDA_SUCCESS then Inl (ERROR ''failed on cuDeviceTotalMem'')
             else Inr (SRF_RETURN_NEXT dindex ''Total global memory size''
                         (Fmt_zu_MBytes (unat (drop_bit 20 dev_memsz)))))
      else
        (case array_get catalog aindex of
           None \<Rightarrow> Inl OutOfBounds
         | Some (attrib, attname, attkind) \<Rightarrow>
             (case cuDeviceGetAttribute e attrib device of
                (rc, property) \<Rightarrow>
                  if rc \<noteq> CUDA_SUCCESS then Inl (ERROR ''failed on cuDeviceGetAttribute'')
                  else
                    (case format_property attkind property of
                       Inl er \<Rightarrow> Inl er
                     | Inr att_value \<Rightarrow> Inr (SRF_RETURN_NEXT dindex attname att_value)))))"

definition pgstrom_device_info :: "env \<Rightarrow> nat \<Rightarrow> cstate \<Rightarrow> srf result" where
  "pgstrom_device_info e call_cntr s =
     (let dindex = call_cntr div (length catalog + 2);
          aindex = call_cntr mod (length catalog + 2)
      in case (if cuda_num_devices s < 0 then pgstrom_init_cuda e s else (Inr (), s)) of
           (Inl er, s1) \<Rightarrow> (Inl er, s1)
         | (Inr _, s1) \<Rightarrow>
             if int dindex \<ge> cuda_num_devices s1 then (Inr SRF_RETURN_DONE, s1)
             else
               (case array_get (cuda_devices s1) dindex of
                  None \<Rightarrow> (Inl OutOfBounds, s1)
                | Some device \<Rightarrow> (device_info_row e (int dindex) aindex device, s1)))"

section \<open>Notions used to state the properties\<close>

subsection \<open>What the driver reports for the device of an ordinal\<close>

definition enumerated :: "env \<Rightarrow> int list" where
  "enumerated e = map int [0..<nat (snd (cuDeviceGetCount e))]"

definition cap_major_of :: "env \<Rightarrow> int \<Rightarrow> 32 word" where
  "cap_major_of e i =
     snd (cuDeviceGetAttribute e CU_DEVICE_ATTRIBUTE_COMPUTE_CAPABILITY_MAJOR (cuDeviceGet_out e i))"

definition cap_minor_of :: "env \<Rightarrow> int \<Rightarrow> 32 word" where
  "cap_minor_of e i =
     snd (cuDeviceGetAttribute e CU_DEVICE_ATTRIBUTE_COMPUTE_CAPABILITY_MINOR (cuDeviceGet_out e i))"

definition passed :: "env \<Rightarrow> int \<Rightarrow> bool" where
  "passed e i = (\<not> sint (cap_major_of e i) < 3)"

definition malloc_limit_of :: "env \<Rightarrow> int \<Rightarrow> 64 word" where
  "malloc_limit_of e i =
     (snd (cuDeviceTotalMem e (cuDeviceGet_out e i)) div 3) AND NOT (push_bit 20 1 - 1)"

definition threads_limit_of :: "env \<Rightarrow> int \<Rightarrow> 64 word" where
  "threads_limit_of e i =
     scast (snd (cuDeviceGetAttribute e CU_DEVICE_ATTRIBUTE_MAX_THREADS_PER_BLOCK
                   (cuDeviceGet_out e i)))"

definition capability_of :: "env \<Rightarrow> int \<Rightarrow> int" where
  "capability_of e i = sint (100 * cap_major_of e i + cap_minor_of e i)"

subsection \<open>Concrete environments\<close>

text \<open>
  A driver on which every call succeeds, with one device of compute capability 3.5, and
  an allocator that hands out a new address at every request; a build that checks
  assertions, callbacks that leave the task states alone, and no module to load.
\<close>

definition quiet_env :: env where
  "quiet_env =
     \<lparr>CurrentResourceOwner = 7,
      crc32c = (\<lambda>a. a),
      cuda_result = (\<lambda>tr c. CUDA_SUCCESS),
      cuDeviceGet_out = (\<lambda>i. i),
      cuCtxGetDevice_out = (\<lambda>tr. 0),
      cuStreamCreate_out = (\<lambda>tr. length tr),
      HostPinMemContextCreate_out = (\<lambda>tr. 1000 + 2 * length tr),
      MemoryContextAllocZero_out = (\<lambda>tr. 1001 + 2 * length tr),
      cuDeviceGetCount = (CUDA_SUCCESS, 1),
      cuDeviceGetName = (\<lambda>d. (CUDA_SUCCESS, ''GPU'')),
      cuDeviceTotalMem = (\<lambda>d. (CUDA_SUCCESS, 4294967296)),
      cuDeviceGetAttribute = (\<lambda>a d. (CUDA_SUCCESS,
         if a = CU_DEVICE_ATTRIBUTE_MAX_THREADS_PER_BLOCK then 1024
         else if a = CU_DEVICE_ATTRIBUTE_COMPUTE_CAPABILITY_MAJOR then 3
         else if a = CU_DEVICE_ATTRIBUTE_COMPUTE_CAPABILITY_MINOR then 5
         else if a = CU_DEVICE_ATTRIBUTE_MAX_SHARED_MEMORY_PER_BLOCK then 49152
         else 32)),
      cuFuncGetAttribute = (\<lambda>a f. (CUDA_SUCCESS,
         if a = CU_FUNC_ATTRIBUTE_SHARED_SIZE_BYTES then 0 else 1024)),
      cuOccupancyMaxPotentialBlockSize = (\<lambda>f m l. (CUDA_SUCCESS, 16, 256)),
      USE_ASSERT_CHECKING = True,
      cb_release_run = (\<lambda>k h. h),
      cb_cleanup_run = (\<lambda>t h. h),
      pgstrom_load_cuda_program_out = (\<lambda>t. None)\<rparr>"

text \<open>
  Two devices: ordinal 0 has compute capability 2.1, 1 GiB of memory and 512 threads per
  block; ordinal 1 has compute capability 3.5, 4 GiB and 1024 threads per block.
\<close>

definition mixed_env :: env where
  "mixed_env =
     quiet_env
       \<lparr>cuDeviceGetCount := (CUDA_SUCCESS, 2),
        cuDeviceTotalMem := (\<lambda>d. (CUDA_SUCCESS, if d = 0 then 1073741824 else 4294967296)),
        cuDeviceGetAttribute := (\<lambda>a d. (CUDA_SUCCESS,
          if a = CU_DEVICE_ATTRIBUTE_MAX_THREADS_PER_BLOCK then (if d = 0 then 512 else 1024)
          else if a = CU_DEVICE_ATTRIBUTE_COMPUTE_CAPABILITY_MAJOR then (if d = 0 then 2 else 3)
          else if a = CU_DEVICE_ATTRIBUTE_COMPUTE_CAPABILITY_MINOR then (if d = 0 then 1 else 5)
          else 0))\<rparr>"

text \<open>
  A registry holding one context, at address 50, for scope 7: two device sub-contexts,
  one task state (address 60) with a loaded module and one tracked task (address 70)
  that carries a release callback, and one file-mapped data store (address 80).
\<close>

definition busy_state :: cstate where
  "busy_state =
     initial_state
       \<lparr>cuda_device_ordinals := [0],
        gcontext_hash := (\<lambda>i. if i = 7 then [50] else []),
        cuda_num_devices := 1,
        cuda_devices := [0],
        gcontexts := [50 \<mapsto> \<lparr>refcnt = 1, resowner = 7, memcxt = 40, num_context = 2,
                                cur_context = 0, dev_context = [11, 12], state_list = [60],
                                pds_list = [80]\<rparr>],
        gtstates := [60 \<mapsto> \<lparr>gcontext = 50, cuda_module = Some 5, tracked_tasks = [70],
                               running_tasks = [], pending_tasks = [], completed_tasks = [],
                               cb_cleanup = True\<rparr>],
        gputasks := [70 \<mapsto> \<lparr>gts = 60, cuda_stream = 1, cuda_device = 0, cuda_context = 11,
                              cb_release = True\<rparr>],
        pdstores := [80 \<mapsto> \<lparr>kds_fname = Some ''kds''\<rparr>]\<rparr>"

subsection \<open>Traces\<close>

text \<open>
  The events of a successful initialisation of the CUDA runtime by \<open>pgstrom_init_cuda\<close>,
  which the creation of a context runs first when the runtime is not initialised yet.
\<close>

definition runtime_init_events :: "cstate \<Rightarrow> event list" where
  "runtime_init_events s =
     (if cuda_num_devices s < 0
      then Cuda CuInit CUDA_SUCCESS #
           map (\<lambda>ordinal. Cuda (CuDeviceGet ordinal) CUDA_SUCCESS) (cuda_device_ordinals s)
      else [])"

text \<open>
  No driver call and no arena creation while the registry lock is held: the first
  argument tells whether the lock is held at the start of the trace.
\<close>

fun calls_outside_lock :: "bool \<Rightarrow> event list \<Rightarrow> bool" where
  "calls_outside_lock held [] = True"
| "calls_outside_lock held (SpinLockAcquire l # evs) =
     calls_outside_lock (held \<or> l = gcontext_lock) evs"
| "calls_outside_lock held (SpinLockRelease l # evs) =
     calls_outside_lock (held \<and> l \<noteq> gcontext_lock) evs"
| "calls_outside_lock held (Cuda c rc # evs) = (\<not> held \<and> calls_outside_lock held evs)"
| "calls_outside_lock held (HostPinMemContextCreate m # evs) =
     (\<not> held \<and> calls_outside_lock held evs)"
| "calls_outside_lock held (ev # evs) = calls_outside_lock held evs"

text \<open>The state of a backend at its start: the postmaster has found device 0.\<close>

definition started_state :: cstate where
  "started_state = initial_state\<lparr>cuda_device_ordinals := [0]\<rparr>"

subsection \<open>The three paths of the acquire operation\<close>

definition slot_hit :: "env \<Rightarrow> cstate \<Rightarrow> bool" where
  "slot_hit e s =
     (case gcontext_last s of
        None \<Rightarrow> False
      | Some l \<Rightarrow>
          (case gcontexts s l of
             None \<Rightarrow> False
           | Some c \<Rightarrow> resowner c = CurrentResourceOwner e))"

definition slot_miss :: "env \<Rightarrow> cstate \<Rightarrow> bool" where
  "slot_miss e s =
     (case gcontext_last s of
        None \<Rightarrow> True
      | Some l \<Rightarrow>
          (case gcontexts s l of
             None \<Rightarrow> False
           | Some c \<Rightarrow> resowner c \<noteq> CurrentResourceOwner e))"

definition chain_lookup :: "env \<Rightarrow> cstate \<Rightarrow> error + addr option" where
  "chain_lookup e s =
     chain_find (gcontexts s) (CurrentResourceOwner e)
       (gcontext_hash s (gpucontext_hash_index e (CurrentResourceOwner e)))"

text \<open>The events a run appended, and the driver calls among them that failed.\<close>

definition new_events :: "cstate \<Rightarrow> cstate \<Rightarrow> event list" where
  "new_events s s' = drop (length (trace s)) (trace s')"

fun failed_calls :: "event list \<Rightarrow> cuda_call list" where
  "failed_calls [] = []"
| "failed_calls (Cuda c rc # evs) =
     (if rc \<noteq> CUDA_SUCCESS then c # failed_calls evs else failed_calls evs)"
| "failed_calls (ev # evs) = failed_calls evs"

subsection \<open>Reading a teardown trace\<close>

text \<open>
  The drain events are the driver calls that set a device sub-context current and
  synchronize it. The reclaiming events are the ones that give something back: the
  release callback of a task, the unloading of a module, the cleanup callback of a task
  state, the unmapping of a data store, the destruction of a device sub-context and the
  deletion of the arena.
\<close>

fun is_drain :: "event \<Rightarrow> bool" where
  "is_drain (Cuda (CuCtxSetCurrent (Some cc)) rc) = True"
| "is_drain (Cuda CuCtxSynchronize rc) = True"
| "is_drain ev = False"

fun is_reclaim :: "event \<Rightarrow> bool" where
  "is_reclaim (Cb_release k) = True"
| "is_reclaim (Cb_cleanup t) = True"
| "is_reclaim (File_unmap p) = True"
| "is_reclaim (MemoryContextDelete m) = True"
| "is_reclaim (Cuda (CuModuleUnload m) rc) = True"
| "is_reclaim (Cuda (CuCtxDestroy cc) rc) = True"
| "is_reclaim ev = False"

fun calls_of :: "event list \<Rightarrow> cuda_call list" where
  "calls_of [] = []"
| "calls_of (Cuda c rc # evs) = c # calls_of evs"
| "calls_of (ev # evs) = calls_of evs"

text \<open>
  \<open>warned checked evs\<close>: every failed driver call of the trace that is among the
  \<open>checked\<close> ones is followed at once by a warning.
\<close>

fun warned :: "(cuda_call \<Rightarrow> bool) \<Rightarrow> event list \<Rightarrow> bool" where
  "warned checked [] = True"
| "warned checked (Cuda c rc # evs) =
     (if rc \<noteq> CUDA_SUCCESS \<and> checked c
      then (case evs of Elog_WARNING msg # rest \<Rightarrow> warned checked rest | _ \<Rightarrow> False)
      else warned checked evs)"
| "warned checked (ev # evs) = warned checked evs"

text \<open>The driver calls whose status the teardown looks at: all but the last reset.\<close>

definition status_checked :: "cuda_call \<Rightarrow> bool" where
  "status_checked c = (c \<noteq> CuCtxSetCurrent None)"

text \<open>
  The device sub-contexts of a context, as the loops of the drain and of the destruction
  visit them, and the driver calls of a full drain.
\<close>

definition sub_contexts :: "GpuContext \<Rightarrow> CUcontext list" where
  "sub_contexts c = take (nat (sint (num_context c))) (dev_context c)"

definition drain_calls :: "GpuContext \<Rightarrow> cuda_call list" where
  "drain_calls c =
     concat (map (\<lambda>cc. [CuCtxSetCurrent (Some cc), CuCtxSynchronize]) (sub_contexts c))"

text \<open>The sub-contexts that a trace destroys, in the order of their destruction.\<close>

fun destroyed :: "event list \<Rightarrow> CUcontext list" where
  "destroyed [] = []"
| "destroyed (Cuda (CuCtxDestroy cc) rc # evs) = cc # destroyed evs"
| "destroyed (ev # evs) = destroyed evs"

text \<open>
  The course of a run is its trace without what the driver answered: every status is
  replaced by success, and the warnings about failed driver calls are left out.
  \<open>skeleton\<close> is a state with the course of its trace in place of the trace. Two runs
  with the same skeleton have done the same things in the same order and have left the
  same registry and the same stores.
\<close>

definition driver_warning :: "string \<Rightarrow> bool" where
  "driver_warning m =
     (m = ''failed on cuCtxSetCurrent'' \<or> m = ''failed on cuCtxSynchronize'' \<or>
      m = ''failed on cuModuleUnload'' \<or> m = ''failed on cuCtxDestroy'')"

fun course :: "event list \<Rightarrow> event list" where
  "course [] = []"
| "course (Cuda c rc # evs) = Cuda c CUDA_SUCCESS # course evs"
| "course (Elog_WARNING m # evs) =
     (if driver_warning m then course evs else Elog_WARNING m # course evs)"
| "course (ev # evs) = ev # course evs"

definition skeleton :: "cstate \<Rightarrow> cstate" where
  "skeleton s = s\<lparr>trace := course (trace s)\<rparr>"

subsection \<open>States and environments for the teardown and the task initialisation\<close>

text \<open>
  The busy registry with a second reference on its context and the most-recently-used
  slot pointing to it.
\<close>

definition shared_state :: cstate where
  "shared_state =
     busy_state
       \<lparr>gcontext_last := Some 50,
        gcontexts := [50 \<mapsto> \<lparr>refcnt = 2, resowner = 7, memcxt = 40, num_context = 2,
                                cur_context = 0, dev_context = [11, 12], state_list = [60],
                                pds_list = [80]\<rparr>]\<rparr>"

text \<open>
  The busy registry while its task is running: task 70 is on the running collection of
  its task state. The release callback of \<open>unlinking_env\<close> takes the task it is
  called for off the running, pending and completed collections, as a release function
  of a task does.
\<close>

definition running_state :: cstate where
  "running_state =
     busy_state
       \<lparr>gtstates := [60 \<mapsto> \<lparr>gcontext = 50, cuda_module = Some 5, tracked_tasks = [70],
                               running_tasks = [70], pending_tasks = [], completed_tasks = [],
                               cb_cleanup = True\<rparr>]\<rparr>"

definition unlink_everywhere :: "addr \<Rightarrow> GpuTaskState \<Rightarrow> GpuTaskState" where
  "unlink_everywhere k ts =
     ts\<lparr>running_tasks := removeAll k (running_tasks ts),
        pending_tasks := removeAll k (pending_tasks ts),
        completed_tasks := removeAll k (completed_tasks ts)\<rparr>"

definition unlinking_env :: env where
  "unlinking_env =
     quiet_env\<lparr>cb_release_run := (\<lambda>k h t. map_option (unlink_everywhere k) (h t))\<rparr>"






text \<open>
  A driver on which every call fails, with the unlinking release callback; the same
  driver in a build without assertions, with callbacks that leave the task states alone;
  and a driver on which only the last reset of the current context fails.
\<close>

definition failing_env :: env where
  "failing_env = unlinking_env\<lparr>cuda_result := \<lambda>tr c. 1\<rparr>"

definition production_env :: env where
  "production_env = quiet_env\<lparr>cuda_result := \<lambda>tr c. 1, USE_ASSERT_CHECKING := False\<rparr>"

definition reset_fails :: env where
  "reset_fails =
     quiet_env\<lparr>cuda_result := \<lambda>tr c. if c = CuCtxSetCurrent None then 1 else CUDA_SUCCESS\<rparr>"

subsection \<open>Auxiliary notions of the proofs about the teardown\<close>

text \<open>
  \<open>calm ch R\<close>: the events \<open>R\<close> hold no drain call and no destruction, and every
  failed call among the \<open>ch\<close> ones is followed by its warning. \<open>appends P s s'\<close>: the
  trace of \<open>s'\<close> is the trace of \<open>s\<close> followed by events that satisfy \<open>P\<close>.
\<close>

definition calm :: "(cuda_call \<Rightarrow> bool) \<Rightarrow> event list \<Rightarrow> bool" where
  "calm ch R = (list_all (\<lambda>ev. \<not> is_drain ev) R \<and> warned ch R \<and> destroyed R = [])"

definition appends :: "(event list \<Rightarrow> bool) \<Rightarrow> cstate \<Rightarrow> cstate \<Rightarrow> bool" where
  "appends P s s' = (\<exists>R. trace s' = trace s @ R \<and> P R)"

subsection \<open>Repeated acquires and releases\<close>

text \<open>
  \<open>get_times e n\<close> runs the acquire operation \<open>n\<close> times in a row and collects the
  contexts returned; \<open>put_times e g n\<close> releases the context \<open>g\<close> \<open>n\<close> times in a
  row. Both stop at the first error.
\<close>

fun get_times :: "env \<Rightarrow> nat \<Rightarrow> cstate \<Rightarrow> addr list result" where
  "get_times e 0 s = (Inr [], s)"
| "get_times e (Suc n) s =
     (case pgstrom_get_gpucontext e s of
        (Inl er, s1) \<Rightarrow> (Inl er, s1)
      | (Inr g, s1) \<Rightarrow>
          (case get_times e n s1 of
             (Inl er, s2) \<Rightarrow> (Inl er, s2)
           | (Inr gs, s2) \<Rightarrow> (Inr (g # gs), s2)))"

fun put_times :: "env \<Rightarrow> addr \<Rightarrow> nat \<Rightarrow> cstate \<Rightarrow> unit result" where
  "put_times e g 0 s = (Inr (), s)"
| "put_times e g (Suc n) s =
     (case pgstrom_put_gpucontext e g s of
        (Inl er, s1) \<Rightarrow> (Inl er, s1)
      | (Inr _, s1) \<Rightarrow> put_times e g n s1)"

definition lock_pairs :: "nat \<Rightarrow> event list" where
  "lock_pairs n = concat (replicate n [SpinLockAcquire gcontext_lock, SpinLockRelease gcontext_lock])"

section \<open>Basic facts\<close>

lemma emit_simps [simp]:
  "trace (emit ev s) = trace s @ [ev]"
  "gcontext_last (emit ev s) = gcontext_last s"
  "gcontext_hash (emit ev s) = gcontext_hash s"
  "gcontexts (emit ev s) = gcontexts s"
  "gtstates (emit ev s) = gtstates s"
  "gputasks (emit ev s) = gputasks s"
  "pdstores (emit ev s) = pdstores s"
  "cuda_num_devices (emit ev s) = cuda_num_devices s"
  "cuda_devices (emit ev s) = cuda_devices s"
  "cuda_device_ordinals (emit ev s) = cuda_device_ordinals s"
  "cuda_max_malloc_size (emit ev s) = cuda_max_malloc_size s"
  "cuda_max_threads_per_block (emit ev s) = cuda_max_threads_per_block s"
  "cuda_compute_capability (emit ev s) = cuda_compute_capability s"
  by (simp_all add: emit_def)

lemma cuda_eq:
  "cuda e c s = (cuda_result e (trace s) c, emit (Cuda c (cuda_result e (trace s) c)) s)"
  by (simp add: cuda_def Let_def)

lemma length_catalog: "length catalog = 42"
  by (simp add: catalog_def)

section \<open>The attribute index of pgstrom\_device\_info\<close>

text \<open>
  Claim C10 says that every catalog access of the device-introspection function is in
  bounds and that the rows after the two special rows read the catalog at the
  corresponding positions. The source computes \<open>aindex\<close> modulo the catalog length plus
  two and then reads \<open>catalog[aindex]\<close> with no offset. With one device, the call with
  counter 42 (the length of the catalog) therefore reads \<open>catalog[42]\<close>, one past the
  last entry, and the call with counter 2, the first row after the two special ones,
  reads \<open>catalog[2]\<close> and not \<open>catalog[0]\<close>.
\<close>

theorem device_info_reads_past_catalog:
  "pgstrom_device_info e 42 (initial_state\<lparr>cuda_num_devices := 1, cuda_devices := [0]\<rparr>)
     = (Inl OutOfBounds, initial_state\<lparr>cuda_num_devices := 1, cuda_devices := [0]\<rparr>)
   \<and> fst (pgstrom_device_info
            (e\<lparr>cuDeviceGetAttribute := \<lambda>a d. (CUDA_SUCCESS, 7)\<rparr>) 2
            (initial_state\<lparr>cuda_num_devices := 1, cuda_devices := [0]\<rparr>))
     = Inr (SRF_RETURN_NEXT 0 (fst (snd (catalog ! 2))) (Fmt_d 7))
   \<and> fst (snd (catalog ! 2)) = ''Maximum block dimension Y''
   \<and> fst (snd (catalog ! 0)) = ''max threads per block''"
  by (simp add: pgstrom_device_info_def length_catalog initial_state_def array_get_def
      device_info_row_def format_property_def DEVATTR_INT_def DEVATTR_BOOL_def)
    (simp add: catalog_def DEVATTR_INT_def DEVATTR_BOOL_def)

section \<open>Termination and grid size of the workgroup computation\<close>

lemma shrink_block_size_returns:
  "shrink_block_size a d m b = Some y \<Longrightarrow> \<not> (d = 0 \<and> scast a > (scast m :: 64 word))"
  by (induct rule: shrink_block_size.raw_induct[rotated 1, consumes 1])
    (auto split: if_splits)

lemma shrink_block_size_diverges:
  "scast a > (scast m :: 64 word) \<Longrightarrow> shrink_block_size a 0 m b = None"
  using shrink_block_size_returns[of a 0 m b] by (cases "shrink_block_size a 0 m b") auto

lemma shrink_block_size_fits:
  "shrink_block_size a d m b0 = Some b \<Longrightarrow> \<not> (scast a + d * scast b > (scast m :: 64 word))"
  by (induct arbitrary: b0 rule: shrink_block_size.raw_induct[rotated 1, consumes 1])
    (auto split: if_splits)

lemma sint_zero_word: "sint (b :: 32 word) = 0 \<Longrightarrow> b = 0"
  by (metis signed_eq_0_iff)

lemma sint_pred: "0 < sint (b :: 32 word) \<Longrightarrow> sint (b - 1) = sint b - 1"
proof -
  assume p: "0 < sint b"
  have lt: "sint b < 2 ^ 31" using sint_lt[of b] by simp
  have "sint (b - 1) = signed_take_bit 31 (sint b - 1)"
    by (simp add: sint_word_ariths)
  also have "\<dots> = sint b - 1"
    using p lt by (intro signed_take_bit_int_eq_self) simp_all
  finally show ?thesis .
qed

lemma shrink_block_size_terminates:
  assumes "\<not> (scast a > (scast m :: 64 word))" and "0 \<le> sint b"
  shows "\<exists>y. shrink_block_size a d m b = Some y"
  using assms(2)
proof (induction "nat (sint b)" arbitrary: b)
  case 0
  then have "b = 0" by (simp add: sint_zero_word)
  then show ?case using assms(1) by (subst shrink_block_size.simps) simp
next
  case (Suc n)
  then have pos: "0 < sint b" by simp
  have "n = nat (sint (b - 1))" using Suc.hyps(2) sint_pred[OF pos] by simp
  moreover have "0 \<le> sint (b - 1)" using sint_pred[OF pos] pos by simp
  ultimately obtain y where "shrink_block_size a d m (b - 1) = Some y"
    using Suc.hyps(1)[of "b - 1"] by auto
  then show ?case by (subst shrink_block_size.simps) simp
qed

text \<open>
  Where the computation goes right: when the static footprint does not exceed the device
  limit the loop stops, at the latest at block size zero, and whenever the function
  returns sizes, the block size is at least a warp, fits the limit (in the 64-bit
  arithmetic of the source) and the grid size is the rounded-up quotient.
\<close>

lemma maximum_blocksize_result:
  assumes "pgstrom_compute_workgroup_size e s f d True nitems dyn = Some (Inr (grid, block))"
  shows "\<exists>bs :: 32 word. block = scast bs
           \<and> sint (snd (cuDeviceGetAttribute e CU_DEVICE_ATTRIBUTE_WARP_SIZE d)) \<le> sint bs
           \<and> \<not> (scast (snd (cuFuncGetAttribute e CU_FUNC_ATTRIBUTE_SHARED_SIZE_BYTES f)) + dyn * block
                  > (scast (snd (cuDeviceGetAttribute e CU_DEVICE_ATTRIBUTE_MAX_SHARED_MEMORY_PER_BLOCK d)) :: 64 word))
           \<and> grid = (nitems + block - 1) div block"
proof -
  let ?a = "snd (cuFuncGetAttribute e CU_FUNC_ATTRIBUTE_SHARED_SIZE_BYTES f)"
  let ?b0 = "snd (cuFuncGetAttribute e CU_FUNC_ATTRIBUTE_MAX_THREADS_PER_BLOCK f)"
  let ?m = "snd (cuDeviceGetAttribute e CU_DEVICE_ATTRIBUTE_MAX_SHARED_MEMORY_PER_BLOCK d)"
  let ?w = "snd (cuDeviceGetAttribute e CU_DEVICE_ATTRIBUTE_WARP_SIZE d)"
  from assms obtain bs where
    l: "shrink_block_size ?a dyn ?m ?b0 = Some bs" and w: "\<not> sint bs < sint ?w"
    and b: "block = scast bs" and g: "grid = (nitems + scast bs - 1) div scast bs"
    by (auto simp: pgstrom_compute_workgroup_size_def split: prod.splits if_splits option.splits)
  have "block = scast bs \<and> sint ?w \<le> sint bs
      \<and> \<not> (scast ?a + dyn * block > (scast ?m :: 64 word))
      \<and> grid = (nitems + block - 1) div block"
    using shrink_block_size_fits[OF l] w b g by (simp add: not_less)
  then show ?thesis by blast
qed

text \<open>
  Claim C4 says that the maximum-block-size mode terminates for every combination of
  static footprint, per-thread requirement and device limit, with a block size of at
  least a warp or with the fatal error. The loop of the source only stops when the
  shared-memory demand fits. With a static footprint of 49160 bytes, no dynamic
  requirement and a device limit of 49152 bytes the demand never fits whatever the block
  size is, so the function neither returns a size nor raises the error: it does not
  return.
\<close>

theorem maximum_blocksize_never_returns:
  "pgstrom_compute_workgroup_size
     (e\<lparr>cuFuncGetAttribute := \<lambda>a f. (CUDA_SUCCESS,
            if a = CU_FUNC_ATTRIBUTE_SHARED_SIZE_BYTES then 49160 else 1024),
        cuDeviceGetAttribute := \<lambda>a d. (CUDA_SUCCESS,
            if a = CU_DEVICE_ATTRIBUTE_MAX_SHARED_MEMORY_PER_BLOCK then 49152 else 32)\<rparr>)
     s f d True nitems 0 = None"
  by (simp add: pgstrom_compute_workgroup_size_def shrink_block_size_diverges)

text \<open>
  Claim C5 says that the maximum-occupancy mode returns the driver's block size with the
  grid size \<open>ceil(item_count / block_size)\<close>. The source passes the driver's own grid
  size through and never looks at the item count: for 10000 items and a driver answer of
  grid 16, block 256 it returns the grid size 16, where the claim wants 40.
\<close>

theorem maximum_occupancy_grid_size:
  "pgstrom_compute_workgroup_size
     (e\<lparr>cuFuncGetAttribute := \<lambda>a f. (CUDA_SUCCESS, 0),
        cuOccupancyMaxPotentialBlockSize := \<lambda>f m l. (CUDA_SUCCESS, 16, 256)\<rparr>)
     s f d False 10000 0 = Some (Inr (16, 256))
   \<and> (10000 + 256 - 1) div 256 = (40 :: 64 word)"
  by (simp add: pgstrom_compute_workgroup_size_def)

section \<open>The most-recently-used slot\<close>

lemma init_cuda_loop_last: "gcontext_last (snd (init_cuda_loop e os i s)) = gcontext_last s"
  by (induction os arbitrary: i s) (simp_all add: cuda_eq)

lemma init_cuda_last: "gcontext_last (snd (pgstrom_init_cuda e s)) = gcontext_last s"
  by (simp add: pgstrom_init_cuda_def cuda_eq Let_def init_cuda_loop_last)

lemma create_last: "gcontext_last (snd (pgstrom_create_gpucontext e r s)) = gcontext_last s"
  using init_cuda_last[of e s]
  by (auto simp add: pgstrom_create_gpucontext_def Let_def split: prod.splits sum.splits)

lemma get_keeps_last: "gcontext_last (snd (pgstrom_get_gpucontext e s)) = gcontext_last s"
  using create_last[of e "CurrentResourceOwner e" "emit (SpinLockAcquire gcontext_lock) s"]
  by (auto simp add: pgstrom_get_gpucontext_def get_slow_path_def refcnt_incr_def Let_def
      split: prod.splits sum.splits option.splits)

text \<open>
  Claim C6 says that after an acquire that misses the slot and the bucket, the
  most-recently-used slot points to the context just created. No statement of the source
  assigns a context to \<open>gcontext_last\<close>: the acquire operation leaves the slot as it
  found it. On the empty registry the first acquire creates and returns a context, and
  the slot is still empty afterwards.
\<close>

theorem acquire_miss_leaves_slot_empty:
  "fst (pgstrom_get_gpucontext e (initial_state\<lparr>cuda_num_devices := 0\<rparr>)) =
     Inr (MemoryContextAllocZero_out e
           [SpinLockAcquire gcontext_lock,
            HostPinMemContextCreate
              (HostPinMemContextCreate_out e [SpinLockAcquire gcontext_lock])])
   \<and> gcontext_last (snd (pgstrom_get_gpucontext e (initial_state\<lparr>cuda_num_devices := 0\<rparr>))) = None
   \<and> gcontext_last (snd (pgstrom_get_gpucontext e s)) = gcontext_last s"
  by (simp add: get_keeps_last)
    (simp add: pgstrom_get_gpucontext_def get_slow_path_def initial_state_def Let_def
      pgstrom_create_gpucontext_def emit_def)

section \<open>Device enumeration and the aggregated limits\<close>

lemma check_capability_Inr:
  assumes "pgstrom_check_device_capability e i d s = (Inr ok, s')"
  shows "s' = emit (Elog_LOG_device i (\<not> ok))
           (track_device_property (snd (cuDeviceTotalMem e d))
              (snd (cuDeviceGetAttribute e CU_DEVICE_ATTRIBUTE_MAX_THREADS_PER_BLOCK d))
              (snd (cuDeviceGetAttribute e CU_DEVICE_ATTRIBUTE_COMPUTE_CAPABILITY_MAJOR d))
              (snd (cuDeviceGetAttribute e CU_DEVICE_ATTRIBUTE_COMPUTE_CAPABILITY_MINOR d)) s)
       \<and> ok = (\<not> sint (snd (cuDeviceGetAttribute e CU_DEVICE_ATTRIBUTE_COMPUTE_CAPABILITY_MAJOR d)) < 3)"
  using assms
  by (auto simp: pgstrom_check_device_capability_def get_attribute_def Let_def
      split: prod.splits if_splits)

lemma Min_size_t_min: "Min_size_t x y = min x y"
  by (auto simp: Min_size_t_def min_def)

lemma sint_Min_int: "sint (Min_int x y) = min (sint x) (sint y)"
  by (auto simp: Min_int_def min_def)

lemma enumerate_loop_Inr:
  assumes "enumerate_loop e is s = (Inr (), s')"
  shows "cuda_device_ordinals s' = cuda_device_ordinals s @ filter (passed e) is
    \<and> cuda_max_malloc_size s' = fold (\<lambda>i a. min a (malloc_limit_of e i)) is (cuda_max_malloc_size s)
    \<and> cuda_max_threads_per_block s' = fold (\<lambda>i a. min a (threads_limit_of e i)) is (cuda_max_threads_per_block s)
    \<and> sint (cuda_compute_capability s') = fold (\<lambda>i a. min a (capability_of e i)) is (sint (cuda_compute_capability s))"
  using assms
proof (induction "is" arbitrary: s)
  case Nil
  then show ?case by simp
next
  case (Cons i rest)
  from Cons.prems obtain ok s2 where
    rc: "cuda_result e (trace s) (CuDeviceGet i) = CUDA_SUCCESS"
    and chk: "pgstrom_check_device_capability e i (cuDeviceGet_out e i)
               (emit (Cuda (CuDeviceGet i) (cuda_result e (trace s) (CuDeviceGet i))) s) = (Inr ok, s2)"
    and rest: "enumerate_loop e rest
        (if ok then s2\<lparr>cuda_device_ordinals := cuda_device_ordinals s2 @ [i]\<rparr> else s2) = (Inr (), s')"
    by (auto simp: cuda_eq split: if_splits prod.splits sum.splits)
  note c = check_capability_Inr[OF chk]
  show ?case
    using Cons.IH[OF rest] c
    by (cases ok) (simp_all add: track_device_property_def passed_def cap_major_of_def
        malloc_limit_of_def threads_limit_of_def capability_of_def cap_minor_of_def
        Min_size_t_min sint_Min_int)
qed

lemma fold_min_Min:
  fixes a :: "'a::linorder"
  shows "fold (\<lambda>i a. min a (f i)) is a = Min (insert a (f ` set is))"
proof (induction "is" arbitrary: a)
  case Nil
  then show ?case by simp
next
  case (Cons i rest)
  have "Min (insert (min a (f i)) (f ` set rest)) = Min (insert a (insert (f i) (f ` set rest)))"
    by (cases "set rest = {}") (simp_all add: min.assoc)
  then show ?case using Cons.IH[of "min a (f i)"] by simp
qed

text \<open>
  Claim C3, amended. The capability check folds every device it looks at into the
  aggregates, whether or not the device passes: after a successful enumeration the list
  of ordinals holds the devices with major version at least 3, and each aggregate is the
  minimum of its value before the enumeration (\<open>INT_MAX\<close> in the initial state) and
  the values of all enumerated devices, the excluded ones too. The allocation ceiling of
  a device is a third of its memory rounded down to a megabyte.
\<close>

theorem aggregates_cover_all_devices:
  assumes "pgstrom_init_cuda_control e s = (Inr (), s')"
  shows "cuda_device_ordinals s' = cuda_device_ordinals s @ filter (passed e) (enumerated e)
    \<and> cuda_max_malloc_size s' =
        Min (insert (cuda_max_malloc_size s) (malloc_limit_of e ` set (enumerated e)))
    \<and> cuda_max_threads_per_block s' =
        Min (insert (cuda_max_threads_per_block s) (threads_limit_of e ` set (enumerated e)))
    \<and> sint (cuda_compute_capability s') =
        Min (insert (sint (cuda_compute_capability s)) (capability_of e ` set (enumerated e)))"
proof -
  from assms obtain s2 where
    loop: "enumerate_loop e (enumerated e)
             (emit (Cuda CuInit (cuda_result e (trace s) CuInit)) s) = (Inr (), s2)"
    and s': "s' = emit RegisterResourceReleaseCallback
               (s2\<lparr>gcontext_hash := (\<lambda>i. if i < 100 then [] else gcontext_hash s2 i)\<rparr>)"
    by (auto simp: pgstrom_init_cuda_control_def cuda_eq enumerated_def
        split: if_splits prod.splits sum.splits)
  show ?thesis
    using enumerate_loop_Inr[OF loop] by (simp add: s' fold_min_Min)
qed

lemma mixed_run:
  "fst (pgstrom_init_cuda_control mixed_env initial_state) = Inr ()
   \<and> cuda_device_ordinals (snd (pgstrom_init_cuda_control mixed_env initial_state)) = [1]
   \<and> cuda_max_malloc_size (snd (pgstrom_init_cuda_control mixed_env initial_state)) = 357564416
   \<and> cuda_max_threads_per_block (snd (pgstrom_init_cuda_control mixed_env initial_state)) = 512
   \<and> cuda_compute_capability (snd (pgstrom_init_cuda_control mixed_env initial_state)) = 201"
  by (simp add: pgstrom_init_cuda_control_def mixed_env_def quiet_env_def initial_state_def
      cuda_eq CUDA_SUCCESS_def upt_rec pgstrom_check_device_capability_def get_attribute_def
      track_device_property_def Min_size_t_def Min_int_def emit_def Let_def)

lemma mixed_passed: "filter (passed mixed_env) (enumerated mixed_env) = [1]"
  by (simp add: mixed_env_def quiet_env_def enumerated_def passed_def cap_major_of_def upt_rec)

lemma mixed_enumerated: "enumerated mixed_env = [0, 1]"
  by (simp add: mixed_env_def quiet_env_def enumerated_def upt_rec)

theorem aggregates_cover_all_devices_witness:
  "pgstrom_init_cuda_control mixed_env initial_state =
     (Inr (), snd (pgstrom_init_cuda_control mixed_env initial_state))
   \<and> cuda_max_threads_per_block (snd (pgstrom_init_cuda_control mixed_env initial_state)) =
       Min {2147483647, threads_limit_of mixed_env 0, threads_limit_of mixed_env 1}"
proof -
  have run: "pgstrom_init_cuda_control mixed_env initial_state =
     (Inr (), snd (pgstrom_init_cuda_control mixed_env initial_state))"
    using mixed_run by (simp add: prod_eq_iff)
  show ?thesis
    using aggregates_cover_all_devices[OF run] run
    by (simp add: mixed_enumerated initial_state_def)
qed

text \<open>
  Claim C3 as stated fails: with the two devices of \<open>mixed_env\<close> only ordinal 1 passes
  the capability predicate, yet all three aggregates are those of the excluded ordinal 0.
\<close>

theorem aggregates_follow_excluded_device:
  "fst (pgstrom_init_cuda_control mixed_env initial_state) = Inr ()
   \<and> cuda_device_ordinals (snd (pgstrom_init_cuda_control mixed_env initial_state)) = [1]
   \<and> cuda_max_threads_per_block (snd (pgstrom_init_cuda_control mixed_env initial_state))
       \<noteq> Min (threads_limit_of mixed_env ` set (filter (passed mixed_env) (enumerated mixed_env)))
   \<and> cuda_max_malloc_size (snd (pgstrom_init_cuda_control mixed_env initial_state))
       \<noteq> Min (malloc_limit_of mixed_env ` set (filter (passed mixed_env) (enumerated mixed_env)))
   \<and> sint (cuda_compute_capability (snd (pgstrom_init_cuda_control mixed_env initial_state)))
       \<noteq> Min (capability_of mixed_env ` set (filter (passed mixed_env) (enumerated mixed_env)))"
  by (simp add: mixed_run mixed_passed)
    (simp add: mixed_env_def quiet_env_def cap_major_of_def
      cap_minor_of_def threads_limit_of_def malloc_limit_of_def capability_of_def)

section \<open>The cleanup hook on a scope without context\<close>

lemma chain_find_none:
  "(\<forall>p\<in>set ps. \<exists>c. h p = Some c \<and> resowner c \<noteq> r) \<Longrightarrow> chain_find h r ps = Inr None"
  by (induction ps) auto

text \<open>
  Claim C8. At a release phase other than \<open>RESOURCE_RELEASE_AFTER_LOCKS\<close> the hook
  returns at once: no event, the state as it was. At the designated phase, when the
  bucket of the terminating scope holds no context of that scope (its context has been
  removed, by the last release or by an earlier run of the hook), the hook takes the
  lock, walks the chain, finds nothing and drops the lock: no warning, no driver call,
  no teardown, and the registry and the stores are unchanged.
\<close>

theorem cleanup_hook_noop:
  "(phase \<noteq> RESOURCE_RELEASE_AFTER_LOCKS \<longrightarrow>
      gpucontext_cleanup_callback e phase is_commit is_toplevel s = (Inr (), s))
   \<and> ((\<forall>p\<in>set (gcontext_hash s (gpucontext_hash_index e (CurrentResourceOwner e))).
         \<exists>c. gcontexts s p = Some c \<and> resowner c \<noteq> CurrentResourceOwner e) \<longrightarrow>
      gpucontext_cleanup_callback e RESOURCE_RELEASE_AFTER_LOCKS is_commit is_toplevel s =
        (Inr (), s\<lparr>trace := trace s @ [SpinLockAcquire gcontext_lock,
                                          SpinLockRelease gcontext_lock]\<rparr>))"
  by (auto simp: gpucontext_cleanup_callback_def Let_def chain_find_none emit_def)

theorem cleanup_hook_noop_witness:
  "gpucontext_cleanup_callback (quiet_env\<lparr>CurrentResourceOwner := 107\<rparr>)
      RESOURCE_RELEASE_LOCKS True True busy_state = (Inr (), busy_state)
   \<and> gcontext_hash busy_state
        (gpucontext_hash_index (quiet_env\<lparr>CurrentResourceOwner := 107\<rparr>) 107) = [50]
   \<and> gpucontext_cleanup_callback (quiet_env\<lparr>CurrentResourceOwner := 107\<rparr>)
      RESOURCE_RELEASE_AFTER_LOCKS True True busy_state =
        (Inr (), busy_state\<lparr>trace := [SpinLockAcquire gcontext_lock,
                                        SpinLockRelease gcontext_lock]\<rparr>)"
  using cleanup_hook_noop[of RESOURCE_RELEASE_LOCKS "quiet_env\<lparr>CurrentResourceOwner := 107\<rparr>"
      True True busy_state]
    cleanup_hook_noop[of RESOURCE_RELEASE_AFTER_LOCKS "quiet_env\<lparr>CurrentResourceOwner := 107\<rparr>"
      True True busy_state]
  by (simp add: busy_state_def initial_state_def quiet_env_def gpucontext_hash_index_def)

section \<open>The acquire operation and the registry lock\<close>

lemma init_cuda_loop_Inr:
  "init_cuda_loop e os i s = (Inr (), s') \<Longrightarrow>
     trace s' = trace s @ map (\<lambda>ordinal. Cuda (CuDeviceGet ordinal) CUDA_SUCCESS) os
     \<and> gcontexts s' = gcontexts s \<and> gcontext_hash s' = gcontext_hash s"
proof (induction os arbitrary: i s)
  case Nil
  then show ?case by simp
next
  case (Cons ordinal cells)
  from Cons.prems have rc: "cuda_result e (trace s) (CuDeviceGet ordinal) = CUDA_SUCCESS"
    by (auto simp: cuda_eq split: if_splits)
  with Cons.prems Cons.IH[of "Suc i"] show ?case
    by (auto simp: cuda_eq split: if_splits)
qed

lemma init_cuda_Inr:
  "pgstrom_init_cuda e s = (Inr (), s') \<Longrightarrow>
     trace s' = trace s @ Cuda CuInit CUDA_SUCCESS #
                  map (\<lambda>ordinal. Cuda (CuDeviceGet ordinal) CUDA_SUCCESS) (cuda_device_ordinals s)
     \<and> gcontexts s' = gcontexts s \<and> gcontext_hash s' = gcontext_hash s"
  by (auto simp: pgstrom_init_cuda_def cuda_eq Let_def split: if_splits
      dest!: init_cuda_loop_Inr)

lemma create_Inr:
  assumes "pgstrom_create_gpucontext e r s = (Inr g, s')"
  shows "trace s' = trace s @ runtime_init_events s @
                      [HostPinMemContextCreate
                         (HostPinMemContextCreate_out e (trace s @ runtime_init_events s))]
     \<and> gcontexts s' = (gcontexts s)(g \<mapsto>
          \<lparr>refcnt = 1, resowner = r,
           memcxt = HostPinMemContextCreate_out e (trace s @ runtime_init_events s),
           num_context = 0, cur_context = 0, dev_context = [], state_list = [],
           pds_list = []\<rparr>)
     \<and> gcontext_hash s' = gcontext_hash s"
proof (cases "cuda_num_devices s < 0")
  case True
  with assms obtain s1 where i: "pgstrom_init_cuda e s = (Inr (), s1)"
    by (auto simp: pgstrom_create_gpucontext_def split: prod.splits sum.splits)
  from init_cuda_Inr[OF i] assms True i show ?thesis
    by (auto simp: pgstrom_create_gpucontext_def runtime_init_events_def Let_def)
next
  case False
  with assms show ?thesis
    by (auto simp: pgstrom_create_gpucontext_def runtime_init_events_def Let_def)
qed

lemma chain_find_Some: "chain_find h r ps = Inr (Some g) \<Longrightarrow> \<exists>c. h g = Some c \<and> resowner c = r \<and> g \<in> set ps"
  by (induction ps) (auto split: option.splits if_splits)

lemma chain_lookup_emit [simp]: "chain_lookup e (emit ev s) = chain_lookup e s"
  by (simp add: chain_lookup_def)

lemma get_on_slot_miss:
  "slot_miss e s \<Longrightarrow>
     pgstrom_get_gpucontext e s = get_slow_path e (emit (SpinLockAcquire gcontext_lock) s)"
  by (auto simp: slot_miss_def pgstrom_get_gpucontext_def Let_def split: option.splits)

lemma get_on_slot_hit:
  "slot_hit e s \<Longrightarrow>
     \<exists>l c. gcontext_last s = Some l \<and> gcontexts s l = Some c \<and>
       pgstrom_get_gpucontext e s =
         (Inr l, emit (SpinLockRelease gcontext_lock)
                   (refcnt_incr l c (emit (SpinLockAcquire gcontext_lock) s)))"
  by (auto simp: slot_hit_def pgstrom_get_gpucontext_def Let_def split: option.splits)

lemma slow_path_on_chain_hit:
  "chain_lookup e s = Inr (Some g) \<Longrightarrow>
     \<exists>c. gcontexts s g = Some c \<and>
       get_slow_path e s = (Inr g, emit (SpinLockRelease gcontext_lock) (refcnt_incr g c s))"
  by (auto simp: chain_lookup_def get_slow_path_def Let_def dest!: chain_find_Some)

lemma slow_path_on_chain_miss:
  "chain_lookup e s = Inr None \<Longrightarrow>
     get_slow_path e s =
       (case pgstrom_create_gpucontext e (CurrentResourceOwner e) s of
          (Inl er, s1) \<Rightarrow> (Inl er, s1)
        | (Inr g, s1) \<Rightarrow>
            (Inr g, emit (SpinLockRelease gcontext_lock)
               (s1\<lparr>gcontext_hash := (gcontext_hash s1)
                     (gpucontext_hash_index e (CurrentResourceOwner e) :=
                        gcontext_hash s1 (gpucontext_hash_index e (CurrentResourceOwner e)) @ [g])\<rparr>)))"
  by (simp add: chain_lookup_def get_slow_path_def Let_def)

text \<open>
  Claim C7, amended. On a miss (the slot does not match and the chain holds no context
  of the scope) a successful acquire is the creation of the context, run with the lock
  held, followed by the insertion at the tail of the bucket and the release of the lock:
  the creation returns with the bucket table untouched, so the context is allocated
  before it is inserted, but inside the critical section, which then contains the
  initialisation of the runtime (when still due) and the creation of the arena. On the
  two hit paths the critical section contains no driver call and no allocation.
\<close>

theorem acquire_creates_inside_lock:
  "(slot_miss e s \<and> chain_lookup e s = Inr None \<and> fst (pgstrom_get_gpucontext e s) = Inr g
    \<longrightarrow>
      fst (pgstrom_create_gpucontext e (CurrentResourceOwner e)
             (emit (SpinLockAcquire gcontext_lock) s)) = Inr g
      \<and> gcontext_hash (snd (pgstrom_create_gpucontext e (CurrentResourceOwner e)
                         (emit (SpinLockAcquire gcontext_lock) s))) = gcontext_hash s
      \<and> gcontext_hash (snd (pgstrom_get_gpucontext e s)) = (gcontext_hash s)
            (gpucontext_hash_index e (CurrentResourceOwner e) :=
               gcontext_hash s (gpucontext_hash_index e (CurrentResourceOwner e)) @ [g])
      \<and> trace (snd (pgstrom_get_gpucontext e s)) =
            trace s @ [SpinLockAcquire gcontext_lock] @ runtime_init_events s @
            [HostPinMemContextCreate
               (HostPinMemContextCreate_out e
                  (trace s @ [SpinLockAcquire gcontext_lock] @ runtime_init_events s)),
             SpinLockRelease gcontext_lock])
   \<and> (slot_hit e s \<or> (slot_miss e s \<and> (\<exists>g. chain_lookup e s = Inr (Some g)))
    \<longrightarrow> trace (snd (pgstrom_get_gpucontext e s)) =
          trace s @ [SpinLockAcquire gcontext_lock, SpinLockRelease gcontext_lock])"
proof (intro conjI impI)
  assume "slot_hit e s \<or> (slot_miss e s \<and> (\<exists>g. chain_lookup e s = Inr (Some g)))"
  then show "trace (snd (pgstrom_get_gpucontext e s)) =
          trace s @ [SpinLockAcquire gcontext_lock, SpinLockRelease gcontext_lock]"
  proof
    assume "slot_hit e s"
    from get_on_slot_hit[OF this] show ?thesis by (auto simp: refcnt_incr_def)
  next
    assume "slot_miss e s \<and> (\<exists>g. chain_lookup e s = Inr (Some g))"
    then obtain g where m: "slot_miss e s" and c: "chain_lookup e (emit (SpinLockAcquire gcontext_lock) s) = Inr (Some g)"
      by auto
    from slow_path_on_chain_hit[OF c] show ?thesis
      by (auto simp: get_on_slot_miss[OF m] refcnt_incr_def)
  qed
next
  assume a: "slot_miss e s \<and> chain_lookup e s = Inr None \<and> fst (pgstrom_get_gpucontext e s) = Inr g"
  let ?r = "CurrentResourceOwner e"
  let ?h = "gpucontext_hash_index e ?r"
  let ?s1 = "emit (SpinLockAcquire gcontext_lock) s"
  from a have cf: "chain_lookup e ?s1 = Inr None" by simp
  from a have slow: "pgstrom_get_gpucontext e s = get_slow_path e ?s1"
    using get_on_slot_miss[of e s] by blast
  obtain res s2 where cr: "pgstrom_create_gpucontext e ?r ?s1 = (res, s2)"
    by (cases "pgstrom_create_gpucontext e ?r ?s1")
  from a slow cr have res: "res = Inr g"
    by (auto simp: slow_path_on_chain_miss[OF cf] split: sum.splits)
  have s': "snd (pgstrom_get_gpucontext e s) = emit (SpinLockRelease gcontext_lock)
                   (s2\<lparr>gcontext_hash := (gcontext_hash s2)(?h := gcontext_hash s2 ?h @ [g])\<rparr>)"
    by (simp add: slow slow_path_on_chain_miss[OF cf] cr res)
  note c = create_Inr[OF cr[unfolded res]]
  have rie: "runtime_init_events ?s1 = runtime_init_events s"
    by (simp add: runtime_init_events_def)
  show "fst (pgstrom_create_gpucontext e ?r ?s1) = Inr g"
    by (simp add: cr res)
  show "gcontext_hash (snd (pgstrom_create_gpucontext e ?r ?s1)) = gcontext_hash s"
    using c by (simp add: cr)
  show "gcontext_hash (snd (pgstrom_get_gpucontext e s)) = (gcontext_hash s)(?h := gcontext_hash s ?h @ [g])"
    using c by (simp add: s')
  show "trace (snd (pgstrom_get_gpucontext e s)) = trace s @ [SpinLockAcquire gcontext_lock] @ runtime_init_events s @
            [HostPinMemContextCreate
               (HostPinMemContextCreate_out e
                  (trace s @ [SpinLockAcquire gcontext_lock] @ runtime_init_events s)),
             SpinLockRelease gcontext_lock]"
    using c by (simp add: s' rie)
qed

lemma started_get:
  "fst (pgstrom_get_gpucontext quiet_env started_state) = Inr 1009
   \<and> trace (snd (pgstrom_get_gpucontext quiet_env started_state)) =
       [SpinLockAcquire gcontext_lock, Cuda CuInit 0, Cuda (CuDeviceGet 0) 0,
        HostPinMemContextCreate 1006, SpinLockRelease gcontext_lock]"
  by (simp add: pgstrom_get_gpucontext_def get_slow_path_def Let_def started_state_def
      initial_state_def quiet_env_def pgstrom_create_gpucontext_def pgstrom_init_cuda_def cuda_eq
      CUDA_SUCCESS_def emit_def gpucontext_hash_index_def)

text \<open>
  Claim C7 as stated fails: on the first acquire of a backend the runtime initialisation
  (\<open>cuInit\<close>, \<open>cuDeviceGet\<close>) and the creation of the arena happen between the
  acquisition and the release of the registry lock.
\<close>

theorem acquire_allocates_under_lock:
  "fst (pgstrom_get_gpucontext quiet_env started_state) = Inr 1009
   \<and> gcontexts started_state 1009 = None
   \<and> trace (snd (pgstrom_get_gpucontext quiet_env started_state)) =
       [SpinLockAcquire gcontext_lock, Cuda CuInit 0, Cuda (CuDeviceGet 0) 0,
        HostPinMemContextCreate 1006, SpinLockRelease gcontext_lock]
   \<and> \<not> calls_outside_lock False (trace (snd (pgstrom_get_gpucontext quiet_env started_state)))"
  by (simp add: started_get) (simp add: started_state_def initial_state_def)

theorem acquire_creates_inside_lock_witness:
  "slot_miss quiet_env started_state \<and> chain_lookup quiet_env started_state = Inr None
   \<and> fst (pgstrom_get_gpucontext quiet_env started_state) = Inr 1009
   \<and> gcontext_hash (snd (pgstrom_get_gpucontext quiet_env started_state)) 7 = [1009]
   \<and> trace (snd (pgstrom_get_gpucontext quiet_env started_state)) =
       [SpinLockAcquire gcontext_lock, Cuda CuInit 0, Cuda (CuDeviceGet 0) 0,
        HostPinMemContextCreate 1006, SpinLockRelease gcontext_lock]
   \<and> slot_miss quiet_env busy_state \<and> chain_lookup quiet_env busy_state = Inr (Some 50)
   \<and> trace (snd (pgstrom_get_gpucontext quiet_env busy_state)) =
       [SpinLockAcquire gcontext_lock, SpinLockRelease gcontext_lock]"
proof -
  have m: "slot_miss quiet_env started_state" "chain_lookup quiet_env started_state = Inr None"
    by (simp_all add: slot_miss_def chain_lookup_def started_state_def initial_state_def)
  have b: "slot_miss quiet_env busy_state" "chain_lookup quiet_env busy_state = Inr (Some 50)"
    by (simp_all add: slot_miss_def chain_lookup_def busy_state_def initial_state_def
        quiet_env_def gpucontext_hash_index_def)
  have g: "fst (pgstrom_get_gpucontext quiet_env started_state) = Inr 1009"
    using started_get by simp
  have tb: "trace busy_state = []" "trace started_state = []"
    "runtime_init_events started_state = [Cuda CuInit 0, Cuda (CuDeviceGet 0) 0]"
    "gcontext_hash started_state = (\<lambda>i. [])"
    "CurrentResourceOwner quiet_env = 7" "gpucontext_hash_index quiet_env 7 = 7"
    "HostPinMemContextCreate_out quiet_env
       [SpinLockAcquire gcontext_lock, Cuda CuInit 0, Cuda (CuDeviceGet 0) 0] = 1006"
    by (simp_all add: busy_state_def started_state_def initial_state_def
        runtime_init_events_def CUDA_SUCCESS_def quiet_env_def gpucontext_hash_index_def)
  show ?thesis
    using acquire_creates_inside_lock[of quiet_env started_state 1009]
      acquire_creates_inside_lock[of quiet_env busy_state]
      m b g
    by (simp add: tb)
qed

section \<open>Task initialisation\<close>





lemma busy_fields:
  "gtstates busy_state 60 =
     Some \<lparr>gcontext = 50, cuda_module = Some 5, tracked_tasks = [70], running_tasks = [],
           pending_tasks = [], completed_tasks = [], cb_cleanup = True\<rparr>"
  "gcontexts busy_state 50 =
     Some \<lparr>refcnt = 1, resowner = 7, memcxt = 40, num_context = 2, cur_context = 0,
           dev_context = [11, 12], state_list = [60], pds_list = [80]\<rparr>"
  "gputasks busy_state 70 =
     Some \<lparr>gts = 60, cuda_stream = 1, cuda_device = 0, cuda_context = 11, cb_release = True\<rparr>"
  "pdstores busy_state 80 = Some \<lparr>kds_fname = Some ''kds''\<rparr>"
  "trace busy_state = []"
  "gcontext_last busy_state = None"
  by (simp_all add: busy_state_def initial_state_def)







section \<open>Teardown: drain first, warnings only\<close>

lemma calls_of_append [simp]: "calls_of (A @ B) = calls_of A @ calls_of B"
  by (induction A rule: calls_of.induct) simp_all

lemma destroyed_append [simp]: "destroyed (A @ B) = destroyed A @ destroyed B"
  by (induction A rule: destroyed.induct) simp_all

lemma course_append [simp]: "course (A @ B) = course A @ course B"
  by (induction A rule: course.induct) simp_all

lemma warned_append: "warned ch A \<Longrightarrow> warned ch B \<Longrightarrow> warned ch (A @ B)"
  by (induction ch A rule: warned.induct) (auto split: list.splits event.splits if_splits)

lemma warn_unless_success_eq:
  "warn_unless_success rc msg s =
     s\<lparr>trace := trace s @ (if rc \<noteq> CUDA_SUCCESS then [Elog_WARNING msg] else [])\<rparr>"
  by (simp add: warn_unless_success_def emit_def)

lemma emit_eq: "emit ev s = s\<lparr>trace := trace s @ [ev]\<rparr>"
  by (simp add: emit_def)

lemma skeleton_eq_iff:
  "skeleton s = skeleton s' \<longleftrightarrow>
     cuda_device_ordinals s = cuda_device_ordinals s'
     \<and> cuda_max_malloc_size s = cuda_max_malloc_size s'
     \<and> cuda_max_threads_per_block s = cuda_max_threads_per_block s'
     \<and> cuda_compute_capability s = cuda_compute_capability s'
     \<and> gcontext_hash s = gcontext_hash s'
     \<and> gcontext_last s = gcontext_last s'
     \<and> cuda_num_devices s = cuda_num_devices s'
     \<and> cuda_devices s = cuda_devices s'
     \<and> gcontexts s = gcontexts s'
     \<and> gtstates s = gtstates s'
     \<and> gputasks s = gputasks s'
     \<and> pdstores s = pdstores s'
     \<and> course (trace s) = course (trace s')"
  by (cases s, cases s') (simp add: skeleton_def)

lemma takeWhile_upt: "takeWhile (\<lambda>i. i < m) [0..<n] = [0..<min n m]"
proof -
  have split: "[0..<n] = [0..<min n m] @ [min n m..<n]"
    by (metis le_add_diff_inverse min.cobounded1 upt_add_eq_append zero_le)
  have a: "takeWhile (\<lambda>i. i < m) ([0..<min n m] @ [min n m..<n]) =
             [0..<min n m] @ takeWhile (\<lambda>i. i < m) [min n m..<n]"
    by (rule takeWhile_append2) simp
  have b: "takeWhile (\<lambda>i. i < m) [min n m..<n] = []"
    by (cases "m < n") (simp_all add: upt_conv_Cons min_def)
  show ?thesis
    by (subst split) (simp only: a b append_Nil2)
qed

lemma map_nth_upt_min: "map (\<lambda>i. f (xs ! i)) [0..<min n (length xs)] = map f (take n xs)"
  by (rule nth_equalityI) simp_all

lemma visited: "map (\<lambda>i. f (dc ! i)) (takeWhile (\<lambda>i. i < length dc) [0..<n]) = map f (take n dc)"
  by (simp only: takeWhile_upt map_nth_upt_min)

lemma sync_loop_shape:
  "\<exists>D. snd (sync_loop e dc is s) = s\<lparr>trace := trace s @ D\<rparr>
     \<and> calls_of D = concat (map (\<lambda>i. [CuCtxSetCurrent (Some (dc ! i)), CuCtxSynchronize])
                              (takeWhile (\<lambda>i. i < length dc) is))
     \<and> course D = concat (map (\<lambda>i. [Cuda (CuCtxSetCurrent (Some (dc ! i))) CUDA_SUCCESS,
                                      Cuda CuCtxSynchronize CUDA_SUCCESS])
                              (takeWhile (\<lambda>i. i < length dc) is))
     \<and> list_all (\<lambda>ev. \<not> is_reclaim ev) D \<and> warned ch D \<and> destroyed D = []
     \<and> fst (sync_loop e dc is s) = (if \<forall>i\<in>set is. i < length dc then Inr () else Inl OutOfBounds)"
proof (induction "is" arbitrary: s)
  case Nil
  show ?case by (intro exI[of _ "[]"]) simp
next
  case (Cons i rest)
  show ?case
  proof (cases "i < length dc")
    case False
    then show ?thesis by (intro exI[of _ "[]"]) (simp add: array_get_def)
  next
    case True
    let ?rc1 = "cuda_result e (trace s) (CuCtxSetCurrent (Some (dc ! i)))"
    let ?e1 = "Cuda (CuCtxSetCurrent (Some (dc ! i))) ?rc1 #
                 (if ?rc1 \<noteq> CUDA_SUCCESS then [Elog_WARNING ''failed on cuCtxSetCurrent''] else [])"
    let ?rc2 = "cuda_result e (trace s @ ?e1) CuCtxSynchronize"
    let ?e2 = "Cuda CuCtxSynchronize ?rc2 #
                 (if ?rc2 \<noteq> CUDA_SUCCESS then [Elog_WARNING ''failed on cuCtxSynchronize''] else [])"
    let ?s2 = "s\<lparr>trace := trace s @ ?e1 @ ?e2\<rparr>"
    let ?is = "takeWhile (\<lambda>i. i < length dc) rest"
    have step: "sync_loop e dc (i # rest) s = sync_loop e dc rest ?s2"
      using True by (simp add: array_get_def cuda_eq warn_unless_success_eq emit_eq)
    from Cons.IH[of ?s2] obtain D where
      r: "snd (sync_loop e dc rest ?s2) = ?s2\<lparr>trace := trace ?s2 @ D\<rparr>"
      and c: "calls_of D = concat (map (\<lambda>i. [CuCtxSetCurrent (Some (dc ! i)), CuCtxSynchronize]) ?is)"
      and k: "course D = concat (map (\<lambda>i. [Cuda (CuCtxSetCurrent (Some (dc ! i))) CUDA_SUCCESS,
                                      Cuda CuCtxSynchronize CUDA_SUCCESS]) ?is)"
      and l: "list_all (\<lambda>ev. \<not> is_reclaim ev) D" and w: "warned ch D" and d: "destroyed D = []"
      and f: "fst (sync_loop e dc rest ?s2) =
                (if \<forall>i\<in>set rest. i < length dc then Inr () else Inl OutOfBounds)"
      by blast
    have w12: "warned ch (?e1 @ ?e2)" by simp
    show ?thesis
    proof (intro exI[of _ "?e1 @ ?e2 @ D"] conjI)
      show "snd (sync_loop e dc (i # rest) s) = s\<lparr>trace := trace s @ ?e1 @ ?e2 @ D\<rparr>"
        unfolding step r by simp
      show "calls_of (?e1 @ ?e2 @ D) =
          concat (map (\<lambda>i. [CuCtxSetCurrent (Some (dc ! i)), CuCtxSynchronize])
                    (takeWhile (\<lambda>i. i < length dc) (i # rest)))"
        using c True by simp
      show "course (?e1 @ ?e2 @ D) =
          concat (map (\<lambda>i. [Cuda (CuCtxSetCurrent (Some (dc ! i))) CUDA_SUCCESS,
                             Cuda CuCtxSynchronize CUDA_SUCCESS])
                    (takeWhile (\<lambda>i. i < length dc) (i # rest)))"
        using k True by (simp add: driver_warning_def)
      show "list_all (\<lambda>ev. \<not> is_reclaim ev) (?e1 @ ?e2 @ D)"
        using l by simp
      show "warned ch (?e1 @ ?e2 @ D)"
        using warned_append[OF w12 w] by (simp only: append_assoc)
      show "destroyed (?e1 @ ?e2 @ D) = []"
        using d by simp
      show "fst (sync_loop e dc (i # rest) s) =
          (if \<forall>i\<in>set (i # rest). i < length dc then Inr () else Inl OutOfBounds)"
        unfolding step f using True by simp
    qed
  qed
qed

lemma destroy_loop_shape:
  "\<exists>R. snd (destroy_loop e dc is s) = s\<lparr>trace := trace s @ R\<rparr>
     \<and> destroyed R = map (\<lambda>i. dc ! i) (takeWhile (\<lambda>i. i < length dc) is)
     \<and> course R = map (\<lambda>i. Cuda (CuCtxDestroy (dc ! i)) CUDA_SUCCESS)
                     (takeWhile (\<lambda>i. i < length dc) is)
     \<and> list_all (\<lambda>ev. \<not> is_drain ev) R \<and> warned ch R
     \<and> fst (destroy_loop e dc is s) = (if \<forall>i\<in>set is. i < length dc then Inr () else Inl OutOfBounds)"
proof (induction "is" arbitrary: s)
  case Nil
  show ?case by (intro exI[of _ "[]"]) simp
next
  case (Cons i rest)
  show ?case
  proof (cases "i < length dc")
    case False
    then show ?thesis by (intro exI[of _ "[]"]) (simp add: array_get_def)
  next
    case True
    let ?rc1 = "cuda_result e (trace s) (CuCtxDestroy (dc ! i))"
    let ?e1 = "Cuda (CuCtxDestroy (dc ! i)) ?rc1 #
                 (if ?rc1 \<noteq> CUDA_SUCCESS then [Elog_WARNING ''failed on cuCtxDestroy''] else [])"
    let ?s2 = "s\<lparr>trace := trace s @ ?e1\<rparr>"
    let ?is = "takeWhile (\<lambda>i. i < length dc) rest"
    have step: "destroy_loop e dc (i # rest) s = destroy_loop e dc rest ?s2"
      using True by (simp add: array_get_def cuda_eq warn_unless_success_eq emit_eq)
    from Cons.IH[of ?s2] obtain R where
      r: "snd (destroy_loop e dc rest ?s2) = ?s2\<lparr>trace := trace ?s2 @ R\<rparr>"
      and c: "destroyed R = map (\<lambda>i. dc ! i) ?is"
      and k: "course R = map (\<lambda>i. Cuda (CuCtxDestroy (dc ! i)) CUDA_SUCCESS) ?is"
      and l: "list_all (\<lambda>ev. \<not> is_drain ev) R" and w: "warned ch R"
      and f: "fst (destroy_loop e dc rest ?s2) =
                (if \<forall>i\<in>set rest. i < length dc then Inr () else Inl OutOfBounds)"
      by blast
    have w1: "warned ch ?e1" by simp
    show ?thesis
    proof (intro exI[of _ "?e1 @ R"] conjI)
      show "snd (destroy_loop e dc (i # rest) s) = s\<lparr>trace := trace s @ ?e1 @ R\<rparr>"
        unfolding step r by simp
      show "destroyed (?e1 @ R) = map (\<lambda>i. dc ! i) (takeWhile (\<lambda>i. i < length dc) (i # rest))"
        using c True by simp
      show "course (?e1 @ R) = map (\<lambda>i. Cuda (CuCtxDestroy (dc ! i)) CUDA_SUCCESS)
                     (takeWhile (\<lambda>i. i < length dc) (i # rest))"
        using k True by (simp add: driver_warning_def)
      show "list_all (\<lambda>ev. \<not> is_drain ev) (?e1 @ R)"
        using l by simp
      show "warned ch (?e1 @ R)"
        using warned_append[OF w1 w] .
      show "fst (destroy_loop e dc (i # rest) s) =
          (if \<forall>i\<in>set (i # rest). i < length dc then Inr () else Inl OutOfBounds)"
        unfolding step f using True by simp
    qed
  qed
qed

lemma calm_append: "calm ch A \<Longrightarrow> calm ch B \<Longrightarrow> calm ch (A @ B)"
  by (simp add: calm_def warned_append)

lemma appends_self: "appends (calm ch) s s"
  by (simp add: appends_def calm_def)

lemma appends_trans:
  "appends (calm ch) s s1 \<Longrightarrow> appends (calm ch) s1 s2 \<Longrightarrow> appends (calm ch) s s2"
  by (auto simp: appends_def intro: calm_append)

lemma unlink_traces [simp]:
  "trace (unlink_state g t s) = trace s"
  "trace (unlink_task t k s) = trace s"
  "trace (unlink_pds g p s) = trace s"
  by (simp_all add: unlink_state_def unlink_task_def unlink_pds_def split: option.splits)

lemma release_tasks_calm: "appends (calm ch) s (snd (release_tasks e ic t ks s))"
proof (induction ks arbitrary: s)
  case Nil
  show ?case by (simp add: appends_self)
next
  case (Cons k rest)
  let ?s2 = "if ic then emit (Elog_WARNING ''Unreferenced GpuTask leak'') (unlink_task t k s)
             else unlink_task t k s"
  have a: "appends (calm ch) s ?s2"
    by (simp add: appends_def calm_def)
  have b: "appends (calm ch) s (call_cb_release e k ?s2)"
    by (simp add: appends_def calm_def call_cb_release_def)
  from appends_trans[OF b Cons.IH[of "call_cb_release e k ?s2"]] a
  show ?case by (auto simp: Let_def appends_self split: option.splits)
qed

lemma unload_module_calm: "appends (calm ch) s (unload_module e t ts s)"
  by (simp add: unload_module_def appends_def calm_def cuda_eq warn_unless_success_eq emit_eq
      split: option.splits)

lemma check_lists_frame [simp]: "snd (check_task_lists_empty e t s) = s"
  by (simp add: check_task_lists_empty_def split: option.splits)

lemma check_lists_snd: "check_task_lists_empty e t s = (r, s') \<Longrightarrow> s' = s"
  by (metis check_lists_frame snd_conv)

lemma check_case:
  "(case check_task_lists_empty e t s of (Inl er, s4) \<Rightarrow> A er s4 | (Inr u, s4) \<Rightarrow> B s4) =
   (case fst (check_task_lists_empty e t s) of Inl er \<Rightarrow> A er s | Inr u \<Rightarrow> B s)"
  by (cases "check_task_lists_empty e t s") (auto dest: check_lists_snd split: sum.splits)

lemma release_states_step:
  assumes "gtstates s t = Some st"
    and "r1 = fst (release_tasks e ic t (tracked_tasks st) (unload_module e t st (unlink_state g t s)))"
    and "s1 = snd (release_tasks e ic t (tracked_tasks st) (unload_module e t st (unlink_state g t s)))"
    and "s2 = (if ic then emit (Elog_WARNING ''Unreferenced GpuTaskState leak'') s1 else s1)"
    and "s3 = (case gtstates s2 t of
                 None \<Rightarrow> s2
               | Some ts2 \<Rightarrow> if cb_cleanup ts2 then call_cb_cleanup e t s2 else s2)"
  shows "release_states e g ic (t # rest) s =
     (if USE_ASSERT_CHECKING e \<and> gcontext st \<noteq> g
      then (Inl (AssertFailure ''gts->gcontext == gcontext''), s)
      else case r1 of
             Inl er \<Rightarrow> (Inl er, s1)
           | Inr u \<Rightarrow>
               if gtstates s2 t = None then (Inl BadPointer, s2)
               else case fst (check_task_lists_empty e t s3) of
                      Inl er \<Rightarrow> (Inl er, s3)
                    | Inr u \<Rightarrow> release_states e g ic rest s3)"
  using assms
  by (cases "release_tasks e ic t (tracked_tasks st) (unload_module e t st (unlink_state g t s))")
    (auto simp: Let_def check_case split: sum.splits option.splits)

lemma release_states_calm: "appends (calm ch) s (snd (release_states e g ic ts s))"
proof (induction ts arbitrary: s)
  case Nil
  show ?case by (simp add: appends_self)
next
  case (Cons t rest)
  show ?case
  proof (cases "gtstates s t")
    case None
    then show ?thesis by (simp add: appends_self)
  next
    case (Some st)
    define sb where "sb = unload_module e t st (unlink_state g t s)"
    define r1 where "r1 = fst (release_tasks e ic t (tracked_tasks st) sb)"
    define s1 where "s1 = snd (release_tasks e ic t (tracked_tasks st) sb)"
    define s2 where "s2 = (if ic then emit (Elog_WARNING ''Unreferenced GpuTaskState leak'') s1 else s1)"
    define s3 where "s3 = (case gtstates s2 t of
                 None \<Rightarrow> s2
               | Some ts2 \<Rightarrow> if cb_cleanup ts2 then call_cb_cleanup e t s2 else s2)"
    note step = release_states_step[OF Some r1_def[unfolded sb_def] s1_def[unfolded sb_def]
        s2_def s3_def, where rest = rest]
    have a: "appends (calm ch) s (unlink_state g t s)" by (simp add: appends_def calm_def)
    have b: "appends (calm ch) s sb"
      unfolding sb_def by (rule appends_trans[OF a unload_module_calm])
    have c: "appends (calm ch) s s1"
      unfolding s1_def by (rule appends_trans[OF b release_tasks_calm])
    have "appends (calm ch) s1 s2" by (simp add: appends_def calm_def s2_def)
    then have d: "appends (calm ch) s s2" by (rule appends_trans[OF c])
    have "appends (calm ch) s2 s3"
      by (simp add: appends_def calm_def s3_def call_cb_cleanup_def split: option.splits)
    then have f: "appends (calm ch) s s3" by (rule appends_trans[OF d])
    note i3 = appends_trans[OF f Cons.IH[of s3]]
    show ?thesis
      unfolding step using c d f i3
      by (simp add: appends_self split: sum.splits)
  qed
qed

lemma release_pds_calm: "appends (calm ch) s (snd (release_pds g ps s))"
proof (induction ps arbitrary: s)
  case Nil
  show ?case by (simp add: appends_self)
next
  case (Cons p rest)
  show ?case
  proof (cases "pdstores s p")
    case None
    then show ?thesis by (simp add: appends_self)
  next
    case (Some pds)
    let ?s1 = "if kds_fname pds \<noteq> None then emit (File_unmap p) (unlink_pds g p s)
               else unlink_pds g p s"
    have a: "appends (calm ch) s ?s1" by (simp add: appends_def calm_def)
    from appends_trans[OF a Cons.IH[of ?s1]] Some show ?thesis
      by (simp add: Let_def)
  qed
qed

lemma sync_shape:
  assumes "gcontexts s g = Some c"
  shows "\<exists>D. snd (pgstrom_sync_gpucontext e g s) = s\<lparr>trace := trace s @ D\<rparr>
     \<and> calls_of D = drain_calls c
     \<and> course D = map (\<lambda>cl. Cuda cl CUDA_SUCCESS) (drain_calls c)
     \<and> list_all (\<lambda>ev. \<not> is_reclaim ev) D \<and> warned ch D \<and> destroyed D = []
     \<and> fst (pgstrom_sync_gpucontext e g s) =
         (if nat (sint (num_context c)) \<le> length (dev_context c) then Inr () else Inl OutOfBounds)"
proof -
  let ?n = "nat (sint (num_context c))"
  let ?dc = "dev_context c"
  from sync_loop_shape[of e ?dc "[0..<?n]" s ch] obtain D where
    r: "snd (sync_loop e ?dc [0..<?n] s) = s\<lparr>trace := trace s @ D\<rparr>"
    and c: "calls_of D = concat (map (\<lambda>i. [CuCtxSetCurrent (Some (?dc ! i)), CuCtxSynchronize])
                              (takeWhile (\<lambda>i. i < length ?dc) [0..<?n]))"
    and k: "course D = concat (map (\<lambda>i. [Cuda (CuCtxSetCurrent (Some (?dc ! i))) CUDA_SUCCESS,
                                      Cuda CuCtxSynchronize CUDA_SUCCESS])
                              (takeWhile (\<lambda>i. i < length ?dc) [0..<?n]))"
    and l: "list_all (\<lambda>ev. \<not> is_reclaim ev) D" and w: "warned ch D" and d: "destroyed D = []"
    and f: "fst (sync_loop e ?dc [0..<?n] s) =
              (if \<forall>i\<in>set [0..<?n]. i < length ?dc then Inr () else Inl OutOfBounds)"
    by blast
  have all: "(\<forall>i\<in>set [0..<?n]. i < length ?dc) \<longleftrightarrow> ?n \<le> length ?dc"
    by (auto simp: not_le) 
  have c': "calls_of D = drain_calls c"
    unfolding c drain_calls_def sub_contexts_def
    by (simp only: visited[of "\<lambda>cc. [CuCtxSetCurrent (Some cc), CuCtxSynchronize]"])
  have k': "course D = map (\<lambda>cl. Cuda cl CUDA_SUCCESS) (drain_calls c)"
    unfolding k drain_calls_def sub_contexts_def
    by (simp only: visited[of "\<lambda>cc. [Cuda (CuCtxSetCurrent (Some cc)) CUDA_SUCCESS,
                                      Cuda CuCtxSynchronize CUDA_SUCCESS]"])
      (simp add: map_concat comp_def)
  show ?thesis
    using assms r c' k' l w d f all
    by (intro exI[of _ D]) (simp add: pgstrom_sync_gpucontext_def)
qed

lemma teardown_step:
  assumes "gcontexts s g = Some c"
    and "r1 = fst (pgstrom_sync_gpucontext e g s)"
    and "s1 = snd (pgstrom_sync_gpucontext e g s)"
    and "r2 = fst (release_states e g ic (state_list c) s1)"
    and "s2 = snd (release_states e g ic (state_list c) s1)"
    and "r3 = fst (release_pds g (pds_list c) s2)"
    and "s3 = snd (release_pds g (pds_list c) s2)"
    and "r4 = fst (destroy_loop e (dev_context c) [0..<nat (sint (num_context c))] s3)"
    and "s4 = snd (destroy_loop e (dev_context c) [0..<nat (sint (num_context c))] s3)"
    and "gcontexts s1 g = Some c"
  shows "pgstrom_release_gpucontext e g ic s =
     (case r1 of Inl er \<Rightarrow> (Inl er, s1) | Inr u \<Rightarrow>
      case r2 of Inl er \<Rightarrow> (Inl er, s2) | Inr u \<Rightarrow>
      case r3 of Inl er \<Rightarrow> (Inl er, s3) | Inr u \<Rightarrow>
      case r4 of Inl er \<Rightarrow> (Inl er, s4) | Inr u \<Rightarrow>
        (Inr (),
         (emit (MemoryContextDelete (memcxt c))
            (emit (Cuda (CuCtxSetCurrent None) (cuda_result e (trace s4) (CuCtxSetCurrent None))) s4))
           \<lparr>gcontexts := (gcontexts s4)(g := None)\<rparr>))"
  using assms
  by (simp add: pgstrom_release_gpucontext_def case_prod_beta cuda_eq Let_def split: sum.splits)

lemma teardown_shape:
  assumes g: "gcontexts s g = Some c"
  shows "\<exists>D R. snd (pgstrom_sync_gpucontext e g s) = s\<lparr>trace := trace s @ D\<rparr>
     \<and> trace (snd (pgstrom_release_gpucontext e g ic s)) = trace s @ D @ R
     \<and> calls_of D = drain_calls c
     \<and> list_all (\<lambda>ev. \<not> is_reclaim ev) D
     \<and> destroyed D = []
     \<and> list_all (\<lambda>ev. \<not> is_drain ev) R
     \<and> warned status_checked (D @ R)
     \<and> take (length (destroyed R)) (sub_contexts c) = destroyed R
     \<and> (fst (pgstrom_release_gpucontext e g ic s) = Inr () \<longrightarrow>
          destroyed R = sub_contexts c \<and> R \<noteq> []
          \<and> last R = MemoryContextDelete (memcxt c)
          \<and> calls_of R \<noteq> [] \<and> last (calls_of R) = CuCtxSetCurrent None
          \<and> gcontexts (snd (pgstrom_release_gpucontext e g ic s)) g = None)"
proof -
  let ?n = "nat (sint (num_context c))"
  let ?dc = "dev_context c"
  from sync_shape[OF g, of e status_checked] obtain D where
    sD: "snd (pgstrom_sync_gpucontext e g s) = s\<lparr>trace := trace s @ D\<rparr>"
    and cD: "calls_of D = drain_calls c"
    and lD: "list_all (\<lambda>ev. \<not> is_reclaim ev) D" and wD: "warned status_checked D"
    and dD: "destroyed D = []"
    by blast
  define r1 where "r1 = fst (pgstrom_sync_gpucontext e g s)"
  define s1 where "s1 = snd (pgstrom_sync_gpucontext e g s)"
  define r2 where "r2 = fst (release_states e g ic (state_list c) s1)"
  define s2 where "s2 = snd (release_states e g ic (state_list c) s1)"
  define r3 where "r3 = fst (release_pds g (pds_list c) s2)"
  define s3 where "s3 = snd (release_pds g (pds_list c) s2)"
  define r4 where "r4 = fst (destroy_loop e ?dc [0..<?n] s3)"
  define s4 where "s4 = snd (destroy_loop e ?dc [0..<?n] s3)"
  define E where "E = [Cuda (CuCtxSetCurrent None) (cuda_result e (trace s4) (CuCtxSetCurrent None)),
                       MemoryContextDelete (memcxt c)]"
  have t1: "trace s1 = trace s @ D" by (simp add: s1_def sD)
  have g1: "gcontexts s1 g = Some c" by (simp add: s1_def sD g)
  note step = teardown_step[OF g r1_def s1_def r2_def s2_def r3_def s3_def r4_def s4_def g1]
  from release_states_calm[of status_checked s1 e g ic "state_list c"] obtain R2 where
    t2: "trace s2 = trace s1 @ R2" and c2: "calm status_checked R2"
    by (auto simp: appends_def s2_def)
  from release_pds_calm[of status_checked s2 g "pds_list c"] obtain R3 where
    t3: "trace s3 = trace s2 @ R3" and c3: "calm status_checked R3"
    by (auto simp: appends_def s3_def)
  from destroy_loop_shape[of e ?dc "[0..<?n]" s3 status_checked] obtain R4 where
    s4': "s4 = s3\<lparr>trace := trace s3 @ R4\<rparr>"
    and d4: "destroyed R4 = map (\<lambda>i. ?dc ! i) (takeWhile (\<lambda>i. i < length ?dc) [0..<?n])"
    and l4: "list_all (\<lambda>ev. \<not> is_drain ev) R4" and w4: "warned status_checked R4"
    by (auto simp: s4_def)
  have t4: "trace s4 = trace s3 @ R4" by (simp add: s4')
  have g4: "gcontexts s4 = gcontexts s3" by (simp add: s4')
  have d4': "destroyed R4 = sub_contexts c"
    unfolding d4 sub_contexts_def using visited[of "\<lambda>x. x" ?dc ?n] by simp
  define R where "R =
     (case r1 of Inl er \<Rightarrow> [] | Inr u \<Rightarrow>
      case r2 of Inl er \<Rightarrow> R2 | Inr u \<Rightarrow>
      case r3 of Inl er \<Rightarrow> R2 @ R3 | Inr u \<Rightarrow>
      case r4 of Inl er \<Rightarrow> R2 @ R3 @ R4 | Inr u \<Rightarrow> R2 @ R3 @ R4 @ E)"
  have l2: "list_all (\<lambda>ev. \<not> is_drain ev) R2" and w2: "warned status_checked R2"
    and d2: "destroyed R2 = []"
    using c2 by (simp_all add: calm_def)
  have l3: "list_all (\<lambda>ev. \<not> is_drain ev) R3" and w3: "warned status_checked R3"
    and d3: "destroyed R3 = []"
    using c3 by (simp_all add: calm_def)
  have wE: "warned status_checked E" by (simp add: E_def status_checked_def)
  have wa: "warned status_checked (R2 @ R3)" by (intro warned_append w2 w3)
  have wb: "warned status_checked (R2 @ R3 @ R4)" by (intro warned_append w2 w3 w4)
  have wc: "warned status_checked (R2 @ R3 @ R4 @ E)" by (intro warned_append w2 w3 w4 wE)
  have wR: "warned status_checked R"
    by (simp add: R_def w2 wa wb wc split: sum.splits)
  show ?thesis
  proof (rule exI[of _ D], rule exI[of _ R], intro conjI)
    show "snd (pgstrom_sync_gpucontext e g s) = s\<lparr>trace := trace s @ D\<rparr>" by (rule sD)
    show "trace (snd (pgstrom_release_gpucontext e g ic s)) = trace s @ D @ R"
      unfolding step by (simp add: R_def t1 t2 t3 t4 E_def split: sum.splits)
    show "calls_of D = drain_calls c" by (rule cD)
    show "list_all (\<lambda>ev. \<not> is_reclaim ev) D" by (rule lD)
    show "destroyed D = []" by (rule dD)
    show "list_all (\<lambda>ev. \<not> is_drain ev) R"
      by (simp add: R_def l2 l3 l4 E_def split: sum.splits)
    show "warned status_checked (D @ R)" by (rule warned_append[OF wD wR])
    show "take (length (destroyed R)) (sub_contexts c) = destroyed R"
      by (simp add: R_def d2 d3 d4' E_def split: sum.splits)
    show "fst (pgstrom_release_gpucontext e g ic s) = Inr () \<longrightarrow>
          destroyed R = sub_contexts c \<and> R \<noteq> []
          \<and> last R = MemoryContextDelete (memcxt c)
          \<and> calls_of R \<noteq> [] \<and> last (calls_of R) = CuCtxSetCurrent None
          \<and> gcontexts (snd (pgstrom_release_gpucontext e g ic s)) g = None"
      unfolding step by (simp add: R_def d2 d3 d4' E_def split: sum.splits)
  qed
qed

lemma skeleton_fields [simp]:
  "gcontexts (skeleton s) = gcontexts s"
  "gtstates (skeleton s) = gtstates s"
  "gputasks (skeleton s) = gputasks s"
  "pdstores (skeleton s) = pdstores s"
  "gcontext_hash (skeleton s) = gcontext_hash s"
  "gcontext_last (skeleton s) = gcontext_last s"
  "trace (skeleton s) = course (trace s)"
  by (simp_all add: skeleton_def)

lemma skel_stores:
  assumes "skeleton s' = skeleton s"
  shows "gcontexts s' = gcontexts s" "gtstates s' = gtstates s" "gputasks s' = gputasks s"
    "pdstores s' = pdstores s" "course (trace s') = course (trace s)"
  using assms by (simp_all add: skeleton_eq_iff)

lemma skel_emit: "skeleton s' = skeleton s \<Longrightarrow> skeleton (emit ev s') = skeleton (emit ev s)"
  by (simp add: skeleton_eq_iff emit_def)

lemma skel_if:
  "skeleton a' = skeleton a \<Longrightarrow> skeleton b' = skeleton b \<Longrightarrow>
     skeleton (if c then a' else b') = skeleton (if c then a else b)"
  by simp

lemma skel_unlink_task:
  "skeleton s' = skeleton s \<Longrightarrow> skeleton (unlink_task t k s') = skeleton (unlink_task t k s)"
  by (simp add: skeleton_eq_iff unlink_task_def split: option.splits)

lemma skel_unlink_state:
  "skeleton s' = skeleton s \<Longrightarrow> skeleton (unlink_state g t s') = skeleton (unlink_state g t s)"
  by (simp add: skeleton_eq_iff unlink_state_def split: option.splits)

lemma skel_unlink_pds:
  "skeleton s' = skeleton s \<Longrightarrow> skeleton (unlink_pds g p s') = skeleton (unlink_pds g p s)"
  by (simp add: skeleton_eq_iff unlink_pds_def split: option.splits)

lemma skel_call_cb_release:
  "skeleton s' = skeleton s \<Longrightarrow>
     skeleton (call_cb_release (e\<lparr>cuda_result := f\<rparr>) k s') = skeleton (call_cb_release e k s)"
  by (simp add: skeleton_eq_iff call_cb_release_def emit_def)

lemma skel_call_cb_cleanup:
  "skeleton s' = skeleton s \<Longrightarrow>
     skeleton (call_cb_cleanup (e\<lparr>cuda_result := f\<rparr>) t s') = skeleton (call_cb_cleanup e t s)"
  by (simp add: skeleton_eq_iff call_cb_cleanup_def emit_def)

lemma skel_unload_module:
  "skeleton s' = skeleton s \<Longrightarrow>
     skeleton (unload_module (e\<lparr>cuda_result := f\<rparr>) t ts s') = skeleton (unload_module e t ts s)"
  by (simp add: skeleton_eq_iff unload_module_def cuda_eq warn_unless_success_eq emit_def
      driver_warning_def split: option.splits)

lemma release_tasks_rel:
  assumes "skeleton s' = skeleton s"
  shows "fst (release_tasks (e\<lparr>cuda_result := f\<rparr>) ic t ks s') = fst (release_tasks e ic t ks s)
       \<and> skeleton (snd (release_tasks (e\<lparr>cuda_result := f\<rparr>) ic t ks s')) =
           skeleton (snd (release_tasks e ic t ks s))"
  using assms
proof (induction ks arbitrary: s s')
  case Nil
  then show ?case by simp
next
  case (Cons k rest)
  note eqs = skel_stores[OF Cons.prems]
  show ?case
  proof (cases "gputasks s k")
    case None
    with eqs Cons.prems show ?thesis by simp
  next
    case (Some task)
    define s2 where "s2 = (if ic then emit (Elog_WARNING ''Unreferenced GpuTask leak'') (unlink_task t k s)
                           else unlink_task t k s)"
    define s2' where "s2' = (if ic then emit (Elog_WARNING ''Unreferenced GpuTask leak'') (unlink_task t k s')
                            else unlink_task t k s')"
    have step: "release_tasks e ic t (k # rest) s =
        (if USE_ASSERT_CHECKING e \<and> gts task \<noteq> t then (Inl (AssertFailure ''task->gts == gts''), s)
         else if \<not> cb_release task then (Inl NullCall, s2)
         else release_tasks e ic t rest (call_cb_release e k s2))"
      using Some by (simp add: s2_def Let_def)
    have step': "release_tasks (e\<lparr>cuda_result := f\<rparr>) ic t (k # rest) s' =
        (if USE_ASSERT_CHECKING e \<and> gts task \<noteq> t then (Inl (AssertFailure ''task->gts == gts''), s')
         else if \<not> cb_release task then (Inl NullCall, s2')
         else release_tasks (e\<lparr>cuda_result := f\<rparr>) ic t rest
                (call_cb_release (e\<lparr>cuda_result := f\<rparr>) k s2'))"
      using Some eqs by (simp add: s2'_def Let_def)
    have sk2: "skeleton s2' = skeleton s2"
      unfolding s2_def s2'_def by (intro skel_if skel_emit skel_unlink_task Cons.prems)
    have sk3: "skeleton (call_cb_release (e\<lparr>cuda_result := f\<rparr>) k s2') =
               skeleton (call_cb_release e k s2)"
      by (rule skel_call_cb_release[OF sk2])
    show ?thesis
      unfolding step step' using Cons.prems sk2 Cons.IH[OF sk3] by simp
  qed
qed

lemma check_lists_rel:
  "gtstates s' = gtstates s \<Longrightarrow>
     fst (check_task_lists_empty (e\<lparr>cuda_result := f\<rparr>) t s') = fst (check_task_lists_empty e t s)"
  by (simp add: check_task_lists_empty_def split: option.splits)

lemma release_states_rel:
  assumes "skeleton s' = skeleton s"
  shows "fst (release_states (e\<lparr>cuda_result := f\<rparr>) g ic ts s') = fst (release_states e g ic ts s)
       \<and> skeleton (snd (release_states (e\<lparr>cuda_result := f\<rparr>) g ic ts s')) =
           skeleton (snd (release_states e g ic ts s))"
  using assms
proof (induction ts arbitrary: s s')
  case Nil
  then show ?case by simp
next
  case (Cons t rest)
  note eqs = skel_stores[OF Cons.prems]
  let ?e' = "e\<lparr>cuda_result := f\<rparr>"
  show ?case
  proof (cases "gtstates s t")
    case None
    with eqs Cons.prems show ?thesis by simp
  next
    case (Some st)
    then have Some': "gtstates s' t = Some st" by (simp add: eqs)
    define sb where "sb = unload_module e t st (unlink_state g t s)"
    define r1 where "r1 = fst (release_tasks e ic t (tracked_tasks st) sb)"
    define s1 where "s1 = snd (release_tasks e ic t (tracked_tasks st) sb)"
    define s2 where "s2 = (if ic then emit (Elog_WARNING ''Unreferenced GpuTaskState leak'') s1 else s1)"
    define s3 where "s3 = (case gtstates s2 t of
                 None \<Rightarrow> s2
               | Some ts2 \<Rightarrow> if cb_cleanup ts2 then call_cb_cleanup e t s2 else s2)"
    define sb' where "sb' = unload_module ?e' t st (unlink_state g t s')"
    define r1' where "r1' = fst (release_tasks ?e' ic t (tracked_tasks st) sb')"
    define s1' where "s1' = snd (release_tasks ?e' ic t (tracked_tasks st) sb')"
    define s2' where "s2' = (if ic then emit (Elog_WARNING ''Unreferenced GpuTaskState leak'') s1' else s1')"
    define s3' where "s3' = (case gtstates s2' t of
                 None \<Rightarrow> s2'
               | Some ts2 \<Rightarrow> if cb_cleanup ts2 then call_cb_cleanup ?e' t s2' else s2')"
    note step = release_states_step[OF Some r1_def[unfolded sb_def] s1_def[unfolded sb_def]
        s2_def s3_def, where rest = rest]
    note step' = release_states_step[OF Some' r1'_def[unfolded sb'_def] s1'_def[unfolded sb'_def]
        s2'_def s3'_def, where rest = rest]
    have skb: "skeleton sb' = skeleton sb"
      unfolding sb_def sb'_def by (intro skel_unload_module skel_unlink_state Cons.prems)
    from release_tasks_rel[OF skb, where e = e and f = f and ic = ic and t = t and ks = "tracked_tasks st"]
    have r1: "r1' = r1" and sk1: "skeleton s1' = skeleton s1"
      by (simp_all add: r1_def r1'_def s1_def s1'_def)
    have sk2: "skeleton s2' = skeleton s2"
      unfolding s2_def s2'_def by (intro skel_if skel_emit sk1)
    note eq2 = skel_stores[OF sk2]
    have sk3: "skeleton s3' = skeleton s3"
      unfolding s3_def s3'_def eq2(2)
      by (cases "gtstates s2 t") (simp_all add: sk2 skel_call_cb_cleanup)
    note eq3 = skel_stores[OF sk3]
    have ck: "fst (check_task_lists_empty ?e' t s3') = fst (check_task_lists_empty e t s3)"
      by (rule check_lists_rel[OF eq3(2)])
    show ?thesis
    proof (cases "USE_ASSERT_CHECKING e \<and> gcontext st \<noteq> g")
      case True
      then have True': "USE_ASSERT_CHECKING (e\<lparr>cuda_result := f\<rparr>) \<and> gcontext st \<noteq> g" by simp
      show ?thesis unfolding step step' if_P[OF True] if_P[OF True'] using Cons.prems by simp
    next
      case False
      note nf = False
      from nf have nf': "\<not> (USE_ASSERT_CHECKING (e\<lparr>cuda_result := f\<rparr>) \<and> gcontext st \<noteq> g)" by simp
      show ?thesis
      proof (cases r1)
        case (Inl er)
        then show ?thesis unfolding step step' if_not_P[OF nf] if_not_P[OF nf'] r1 using sk1 by simp
      next
        case (Inr u)
        note ok1 = Inr
        show ?thesis
        proof (cases "gtstates s2 t")
          case None
          then show ?thesis unfolding step step' if_not_P[OF nf] if_not_P[OF nf'] r1 eq2(2) using ok1 sk2 by simp
        next
          case (Some ts2)
          note some2 = Some
          show ?thesis
          proof (cases "fst (check_task_lists_empty e t s3)")
            case (Inl er)
            then show ?thesis
              unfolding step step' if_not_P[OF nf] if_not_P[OF nf'] r1 eq2(2) ck using ok1 some2 sk3 by simp
          next
            case (Inr u')
            then show ?thesis
              unfolding step step' if_not_P[OF nf] if_not_P[OF nf'] r1 eq2(2) ck using ok1 some2 Cons.IH[OF sk3] by simp
          qed
        qed
      qed
    qed
  qed
qed

lemma release_pds_rel:
  assumes "skeleton s' = skeleton s"
  shows "fst (release_pds g ps s') = fst (release_pds g ps s)
       \<and> skeleton (snd (release_pds g ps s')) = skeleton (snd (release_pds g ps s))"
  using assms
proof (induction ps arbitrary: s s')
  case Nil
  then show ?case by simp
next
  case (Cons p rest)
  note eqs = skel_stores[OF Cons.prems]
  show ?case
  proof (cases "pdstores s p")
    case None
    with eqs Cons.prems show ?thesis by simp
  next
    case (Some pds)
    define s1 where "s1 = (if kds_fname pds \<noteq> None then emit (File_unmap p) (unlink_pds g p s)
                           else unlink_pds g p s)"
    define s1' where "s1' = (if kds_fname pds \<noteq> None then emit (File_unmap p) (unlink_pds g p s')
                            else unlink_pds g p s')"
    have step: "release_pds g (p # rest) s = release_pds g rest s1"
      using Some by (simp add: s1_def Let_def)
    have step': "release_pds g (p # rest) s' = release_pds g rest s1'"
      using Some eqs by (simp add: s1'_def Let_def)
    have sk1: "skeleton s1' = skeleton s1"
      unfolding s1_def s1'_def by (intro skel_if skel_emit skel_unlink_pds Cons.prems)
    show ?thesis
      unfolding step step' by (rule Cons.IH[OF sk1])
  qed
qed

lemma sync_loop_rel:
  assumes "skeleton s' = skeleton s"
  shows "fst (sync_loop (e\<lparr>cuda_result := f\<rparr>) dc ixs s') = fst (sync_loop e dc ixs s)
       \<and> skeleton (snd (sync_loop (e\<lparr>cuda_result := f\<rparr>) dc ixs s')) =
           skeleton (snd (sync_loop e dc ixs s))"
proof -
  from sync_loop_shape[of e dc ixs s "\<lambda>c. True"] obtain D where
    a: "snd (sync_loop e dc ixs s) = s\<lparr>trace := trace s @ D\<rparr>"
    and b: "course D = concat (map (\<lambda>i. [Cuda (CuCtxSetCurrent (Some (dc ! i))) CUDA_SUCCESS,
                                      Cuda CuCtxSynchronize CUDA_SUCCESS])
                              (takeWhile (\<lambda>i. i < length dc) ixs))"
    and c: "fst (sync_loop e dc ixs s) = (if \<forall>i\<in>set ixs. i < length dc then Inr () else Inl OutOfBounds)"
    by blast
  from sync_loop_shape[of "e\<lparr>cuda_result := f\<rparr>" dc ixs s' "\<lambda>c. True"] obtain D' where
    a': "snd (sync_loop (e\<lparr>cuda_result := f\<rparr>) dc ixs s') = s'\<lparr>trace := trace s' @ D'\<rparr>"
    and b': "course D' = concat (map (\<lambda>i. [Cuda (CuCtxSetCurrent (Some (dc ! i))) CUDA_SUCCESS,
                                      Cuda CuCtxSynchronize CUDA_SUCCESS])
                              (takeWhile (\<lambda>i. i < length dc) ixs))"
    and c': "fst (sync_loop (e\<lparr>cuda_result := f\<rparr>) dc ixs s') =
               (if \<forall>i\<in>set ixs. i < length dc then Inr () else Inl OutOfBounds)"
    by blast
  show ?thesis
    using assms unfolding a a' c c' by (simp add: skeleton_eq_iff b b')
qed

lemma destroy_loop_rel:
  assumes "skeleton s' = skeleton s"
  shows "fst (destroy_loop (e\<lparr>cuda_result := f\<rparr>) dc ixs s') = fst (destroy_loop e dc ixs s)
       \<and> skeleton (snd (destroy_loop (e\<lparr>cuda_result := f\<rparr>) dc ixs s')) =
           skeleton (snd (destroy_loop e dc ixs s))"
proof -
  from destroy_loop_shape[of e dc ixs s "\<lambda>c. True"] obtain D where
    a: "snd (destroy_loop e dc ixs s) = s\<lparr>trace := trace s @ D\<rparr>"
    and b: "course D = map (\<lambda>i. Cuda (CuCtxDestroy (dc ! i)) CUDA_SUCCESS)
                     (takeWhile (\<lambda>i. i < length dc) ixs)"
    and c: "fst (destroy_loop e dc ixs s) = (if \<forall>i\<in>set ixs. i < length dc then Inr () else Inl OutOfBounds)"
    by blast
  from destroy_loop_shape[of "e\<lparr>cuda_result := f\<rparr>" dc ixs s' "\<lambda>c. True"] obtain D' where
    a': "snd (destroy_loop (e\<lparr>cuda_result := f\<rparr>) dc ixs s') = s'\<lparr>trace := trace s' @ D'\<rparr>"
    and b': "course D' = map (\<lambda>i. Cuda (CuCtxDestroy (dc ! i)) CUDA_SUCCESS)
                     (takeWhile (\<lambda>i. i < length dc) ixs)"
    and c': "fst (destroy_loop (e\<lparr>cuda_result := f\<rparr>) dc ixs s') =
               (if \<forall>i\<in>set ixs. i < length dc then Inr () else Inl OutOfBounds)"
    by blast
  show ?thesis
    using assms unfolding a a' c c' by (simp add: skeleton_eq_iff b b')
qed

lemma teardown_rel:
  assumes g: "gcontexts s g = Some c"
  shows "fst (pgstrom_release_gpucontext (e\<lparr>cuda_result := f\<rparr>) g ic s) =
           fst (pgstrom_release_gpucontext e g ic s)
       \<and> skeleton (snd (pgstrom_release_gpucontext (e\<lparr>cuda_result := f\<rparr>) g ic s)) =
           skeleton (snd (pgstrom_release_gpucontext e g ic s))"
proof -
  let ?e' = "e\<lparr>cuda_result := f\<rparr>"
  let ?is = "[0..<nat (sint (num_context c))]"
  let ?dc = "dev_context c"
  define r1 where "r1 = fst (pgstrom_sync_gpucontext e g s)"
  define s1 where "s1 = snd (pgstrom_sync_gpucontext e g s)"
  define r2 where "r2 = fst (release_states e g ic (state_list c) s1)"
  define s2 where "s2 = snd (release_states e g ic (state_list c) s1)"
  define r3 where "r3 = fst (release_pds g (pds_list c) s2)"
  define s3 where "s3 = snd (release_pds g (pds_list c) s2)"
  define r4 where "r4 = fst (destroy_loop e ?dc ?is s3)"
  define s4 where "s4 = snd (destroy_loop e ?dc ?is s3)"
  define r1' where "r1' = fst (pgstrom_sync_gpucontext ?e' g s)"
  define s1' where "s1' = snd (pgstrom_sync_gpucontext ?e' g s)"
  define r2' where "r2' = fst (release_states ?e' g ic (state_list c) s1')"
  define s2' where "s2' = snd (release_states ?e' g ic (state_list c) s1')"
  define r3' where "r3' = fst (release_pds g (pds_list c) s2')"
  define s3' where "s3' = snd (release_pds g (pds_list c) s2')"
  define r4' where "r4' = fst (destroy_loop ?e' ?dc ?is s3')"
  define s4' where "s4' = snd (destroy_loop ?e' ?dc ?is s3')"
  from sync_shape[OF g, of e "\<lambda>c. True"] have g1: "gcontexts s1 g = Some c"
    by (auto simp: s1_def g)
  from sync_shape[OF g, of ?e' "\<lambda>c. True"] have g1': "gcontexts s1' g = Some c"
    by (auto simp: s1'_def g)
  note step = teardown_step[OF g r1_def s1_def r2_def s2_def r3_def s3_def r4_def s4_def g1]
  note step' = teardown_step[OF g r1'_def s1'_def r2'_def s2'_def r3'_def s3'_def r4'_def s4'_def g1']
  from sync_loop_rel[OF refl, where s = s and e = e and f = f and dc = ?dc and ixs = ?is]
  have r1: "r1' = r1" and sk1: "skeleton s1' = skeleton s1"
    using g by (simp_all add: r1_def r1'_def s1_def s1'_def pgstrom_sync_gpucontext_def)
  from release_states_rel[OF sk1, where e = e and f = f and g = g and ic = ic and ts = "state_list c"]
  have r2: "r2' = r2" and sk2: "skeleton s2' = skeleton s2"
    by (simp_all add: r2_def r2'_def s2_def s2'_def)
  from release_pds_rel[OF sk2, where g = g and ps = "pds_list c"]
  have r3: "r3' = r3" and sk3: "skeleton s3' = skeleton s3"
    by (simp_all add: r3_def r3'_def s3_def s3'_def)
  from destroy_loop_rel[OF sk3, where e = e and f = f and dc = ?dc and ixs = ?is]
  have r4: "r4' = r4" and sk4: "skeleton s4' = skeleton s4"
    by (simp_all add: r4_def r4'_def s4_def s4'_def)
  have fin: "skeleton ((emit (MemoryContextDelete (memcxt c))
            (emit (Cuda (CuCtxSetCurrent None) x) s4'))\<lparr>gcontexts := (gcontexts s4')(g := None)\<rparr>) =
        skeleton ((emit (MemoryContextDelete (memcxt c))
            (emit (Cuda (CuCtxSetCurrent None) y) s4))\<lparr>gcontexts := (gcontexts s4)(g := None)\<rparr>)"
    for x y
    using sk4 by (simp add: skeleton_eq_iff emit_def)
  show ?thesis
    unfolding step step' r1 r2 r3 r4
    using sk1 sk2 sk3 sk4 fin by (simp split: sum.splits)
qed

lemma release_tasks_no_error: "fst (release_tasks e ic t ks s) \<noteq> Inl (ERROR m)"
  by (induction ks arbitrary: s ic) (simp_all add: Let_def split: option.splits)

lemma check_lists_no_error: "fst (check_task_lists_empty e t s) \<noteq> Inl (ERROR m)"
  by (simp add: check_task_lists_empty_def split: option.splits)

lemma release_states_no_error: "fst (release_states e g ic ts s) \<noteq> Inl (ERROR m)"
proof (induction ts arbitrary: s)
  case Nil
  show ?case by simp
next
  case (Cons t rest)
  show ?case
  proof (cases "gtstates s t")
    case None
    then show ?thesis by simp
  next
    case (Some st)
    define sb where "sb = unload_module e t st (unlink_state g t s)"
    define r1 where "r1 = fst (release_tasks e ic t (tracked_tasks st) sb)"
    define s1 where "s1 = snd (release_tasks e ic t (tracked_tasks st) sb)"
    define s2 where "s2 = (if ic then emit (Elog_WARNING ''Unreferenced GpuTaskState leak'') s1 else s1)"
    define s3 where "s3 = (case gtstates s2 t of
                 None \<Rightarrow> s2
               | Some ts2 \<Rightarrow> if cb_cleanup ts2 then call_cb_cleanup e t s2 else s2)"
    note step = release_states_step[OF Some r1_def[unfolded sb_def] s1_def[unfolded sb_def]
        s2_def s3_def, where rest = rest]
    have a: "r1 \<noteq> Inl (ERROR m)"
      unfolding r1_def by (rule release_tasks_no_error)
    show ?thesis
      unfolding step using a check_lists_no_error[of e t s3 m] Cons.IH[of s3]
      by (auto split: sum.splits)
  qed
qed

lemma release_pds_no_error: "fst (release_pds g ps s) \<noteq> Inl (ERROR m)"
  by (induction ps arbitrary: s) (simp_all add: Let_def split: option.splits)

lemma teardown_no_error: "fst (pgstrom_release_gpucontext e g ic s) \<noteq> Inl (ERROR m)"
proof (cases "gcontexts s g")
  case None
  then show ?thesis
    by (simp add: pgstrom_release_gpucontext_def pgstrom_sync_gpucontext_def)
next
  case (Some c)
  let ?is = "[0..<nat (sint (num_context c))]"
  let ?dc = "dev_context c"
  define r1 where "r1 = fst (pgstrom_sync_gpucontext e g s)"
  define s1 where "s1 = snd (pgstrom_sync_gpucontext e g s)"
  define r2 where "r2 = fst (release_states e g ic (state_list c) s1)"
  define s2 where "s2 = snd (release_states e g ic (state_list c) s1)"
  define r3 where "r3 = fst (release_pds g (pds_list c) s2)"
  define s3 where "s3 = snd (release_pds g (pds_list c) s2)"
  define r4 where "r4 = fst (destroy_loop e ?dc ?is s3)"
  define s4 where "s4 = snd (destroy_loop e ?dc ?is s3)"
  from sync_shape[OF Some, of e "\<lambda>c. True"] have g1: "gcontexts s1 g = Some c"
    and a1: "r1 \<noteq> Inl (ERROR m)"
    by (auto simp: s1_def r1_def Some split: if_splits)
  note step = teardown_step[OF Some r1_def s1_def r2_def s2_def r3_def s3_def r4_def s4_def g1]
  have a2: "r2 \<noteq> Inl (ERROR m)" unfolding r2_def by (rule release_states_no_error)
  have a3: "r3 \<noteq> Inl (ERROR m)" unfolding r3_def by (rule release_pds_no_error)
  from destroy_loop_shape[of e ?dc ?is s3 "\<lambda>c. True"] have a4: "r4 \<noteq> Inl (ERROR m)"
    by (auto simp: r4_def split: if_splits)
  show ?thesis
    unfolding step using a1 a2 a3 a4 by (auto split: sum.splits)
qed

lemma new_events_append [simp]: "trace s' = trace s @ evs \<Longrightarrow> new_events s s' = evs"
  by (simp add: new_events_def)

text \<open>
  Claim C2, amended. For the teardown of an existing context, whatever the state of its
  task states (tasks on the running collection included), whatever the callbacks do to
  the task states and whatever the driver answers:

  The events of the teardown begin with the events of the drain, whose driver calls are,
  for each device sub-context in turn, to set it current and to synchronize. The drain
  holds no reclaiming event (task release, module unload, cleanup callback, unmapping,
  destruction of a sub-context, deletion of the arena), and no drain call comes after
  it. The sub-contexts that are destroyed are, in order, the first ones of those that
  the drain has visited: every sub-context has been set current and synchronized before
  it is destroyed.

  Every failed driver call whose status the source looks at (all but the last
  \<open>cuCtxSetCurrent(NULL)\<close>) is followed by a warning, and the teardown never ends with
  an error raised by \<open>elog\<close>. What the driver answers never changes the course of the
  teardown: with any other driver it ends with the same
  result, the same events but for the statuses and their warnings, and the same registry
  and stores. When it returns, every sub-context has been destroyed, the last driver
  call was the reset of the current context, the last event was the deletion of the
  arena, and the context is gone.
\<close>

theorem teardown_drains_first:
  assumes "gcontexts s g = Some c"
  shows
    "take (length (new_events s (snd (pgstrom_sync_gpucontext e g s))))
          (new_events s (snd (pgstrom_release_gpucontext e g is_commit s)))
        = new_events s (snd (pgstrom_sync_gpucontext e g s))
     \<and> calls_of (new_events s (snd (pgstrom_sync_gpucontext e g s))) = drain_calls c
     \<and> list_all (\<lambda>ev. \<not> is_reclaim ev) (new_events s (snd (pgstrom_sync_gpucontext e g s)))
     \<and> list_all (\<lambda>ev. \<not> is_drain ev)
          (drop (length (new_events s (snd (pgstrom_sync_gpucontext e g s))))
             (new_events s (snd (pgstrom_release_gpucontext e g is_commit s))))
     \<and> take (length (destroyed (new_events s (snd (pgstrom_release_gpucontext e g is_commit s)))))
          (sub_contexts c)
        = destroyed (new_events s (snd (pgstrom_release_gpucontext e g is_commit s)))
     \<and> warned status_checked (new_events s (snd (pgstrom_release_gpucontext e g is_commit s)))
     \<and> (\<forall>m. fst (pgstrom_release_gpucontext e g is_commit s) \<noteq> Inl (ERROR m))
     \<and> fst (pgstrom_release_gpucontext (e\<lparr>cuda_result := f\<rparr>) g is_commit s)
        = fst (pgstrom_release_gpucontext e g is_commit s)
     \<and> skeleton (snd (pgstrom_release_gpucontext (e\<lparr>cuda_result := f\<rparr>) g is_commit s))
        = skeleton (snd (pgstrom_release_gpucontext e g is_commit s))
     \<and> (fst (pgstrom_release_gpucontext e g is_commit s) = Inr () \<longrightarrow>
          destroyed (new_events s (snd (pgstrom_release_gpucontext e g is_commit s)))
            = sub_contexts c
          \<and> last (calls_of (new_events s (snd (pgstrom_release_gpucontext e g is_commit s))))
            = CuCtxSetCurrent None
          \<and> last (new_events s (snd (pgstrom_release_gpucontext e g is_commit s)))
            = MemoryContextDelete (memcxt c)
          \<and> gcontexts (snd (pgstrom_release_gpucontext e g is_commit s)) g = None)"
proof -
  from teardown_shape[OF assms, of e is_commit] obtain D R where
    sD: "snd (pgstrom_sync_gpucontext e g s) = s\<lparr>trace := trace s @ D\<rparr>"
    and tR: "trace (snd (pgstrom_release_gpucontext e g is_commit s)) = trace s @ D @ R"
    and cD: "calls_of D = drain_calls c"
    and lD: "list_all (\<lambda>ev. \<not> is_reclaim ev) D"
    and dD: "destroyed D = []"
    and lR: "list_all (\<lambda>ev. \<not> is_drain ev) R"
    and w: "warned status_checked (D @ R)"
    and pre: "take (length (destroyed R)) (sub_contexts c) = destroyed R"
    and fin: "fst (pgstrom_release_gpucontext e g is_commit s) = Inr () \<longrightarrow>
          destroyed R = sub_contexts c \<and> R \<noteq> []
          \<and> last R = MemoryContextDelete (memcxt c)
          \<and> calls_of R \<noteq> [] \<and> last (calls_of R) = CuCtxSetCurrent None
          \<and> gcontexts (snd (pgstrom_release_gpucontext e g is_commit s)) g = None"
    by blast
  have nD: "new_events s (snd (pgstrom_sync_gpucontext e g s)) = D"
    by (simp add: sD new_events_def)
  have nR: "new_events s (snd (pgstrom_release_gpucontext e g is_commit s)) = D @ R"
    using tR by (rule new_events_append)
  have ind: "fst (pgstrom_release_gpucontext (e\<lparr>cuda_result := f\<rparr>) g is_commit s)
        = fst (pgstrom_release_gpucontext e g is_commit s)
     \<and> skeleton (snd (pgstrom_release_gpucontext (e\<lparr>cuda_result := f\<rparr>) g is_commit s))
        = skeleton (snd (pgstrom_release_gpucontext e g is_commit s))"
    by (rule teardown_rel[OF assms])
  have p9: "fst (pgstrom_release_gpucontext e g is_commit s) = Inr () \<longrightarrow>
          destroyed (D @ R) = sub_contexts c
          \<and> last (calls_of (D @ R)) = CuCtxSetCurrent None
          \<and> last (D @ R) = MemoryContextDelete (memcxt c)
          \<and> gcontexts (snd (pgstrom_release_gpucontext e g is_commit s)) g = None"
    using fin dD by simp
  show ?thesis
    unfolding nD nR using cD lD lR w pre ind p9 dD teardown_no_error[of e g is_commit s] by simp
qed

lemmas teardown_defs =
  pgstrom_release_gpucontext_def pgstrom_sync_gpucontext_def array_get_def cuda_eq
  warn_unless_success_def unlink_state_def unload_module_def unlink_task_def
  check_task_lists_empty_def unlink_pds_def emit_def Let_def upt_rec
  call_cb_release_def call_cb_cleanup_def

lemma running_fields:
  "gtstates running_state 60 =
     Some \<lparr>gcontext = 50, cuda_module = Some 5, tracked_tasks = [70], running_tasks = [70],
           pending_tasks = [], completed_tasks = [], cb_cleanup = True\<rparr>"
  "gcontexts running_state 50 =
     Some \<lparr>refcnt = 1, resowner = 7, memcxt = 40, num_context = 2, cur_context = 0,
           dev_context = [11, 12], state_list = [60], pds_list = [80]\<rparr>"
  "gputasks running_state 70 =
     Some \<lparr>gts = 60, cuda_stream = 1, cuda_device = 0, cuda_context = 11, cb_release = True\<rparr>"
  "pdstores running_state 80 = Some \<lparr>kds_fname = Some ''kds''\<rparr>"
  "trace running_state = []"
  by (simp_all add: running_state_def busy_state_def initial_state_def)

lemma env_fields [simp]:
  "USE_ASSERT_CHECKING quiet_env" "USE_ASSERT_CHECKING unlinking_env"
  "USE_ASSERT_CHECKING failing_env" "USE_ASSERT_CHECKING reset_fails"
  "cb_release_run quiet_env = (\<lambda>k h. h)" "cb_cleanup_run quiet_env = (\<lambda>t h. h)"
  "cb_release_run reset_fails = (\<lambda>k h. h)" "cb_cleanup_run reset_fails = (\<lambda>t h. h)"
  "cb_release_run failing_env = (\<lambda>k h t. map_option (unlink_everywhere k) (h t))"
  "cb_cleanup_run failing_env = (\<lambda>t h. h)"
  "cb_release_run unlinking_env = (\<lambda>k h t. map_option (unlink_everywhere k) (h t))"
  "cb_cleanup_run unlinking_env = (\<lambda>t h. h)"
  "cuda_result quiet_env = (\<lambda>tr c. CUDA_SUCCESS)"
  "cuda_result unlinking_env = (\<lambda>tr c. CUDA_SUCCESS)"
  "cuda_result failing_env = (\<lambda>tr c. 1)"
  "cuda_result reset_fails = (\<lambda>tr c. if c = CuCtxSetCurrent None then 1 else CUDA_SUCCESS)"
  "\<not> USE_ASSERT_CHECKING production_env"
  "cb_release_run production_env = (\<lambda>k h. h)" "cb_cleanup_run production_env = (\<lambda>t h. h)"
  "cuda_result production_env = (\<lambda>tr c. 1)"
  by (simp_all add: quiet_env_def unlinking_env_def failing_env_def reset_fails_def
      production_env_def)

lemma busy_teardown_reset_fails:
  "trace (snd (pgstrom_release_gpucontext reset_fails 50 False busy_state)) =
     [Cuda (CuCtxSetCurrent (Some 11)) 0, Cuda CuCtxSynchronize 0,
      Cuda (CuCtxSetCurrent (Some 12)) 0, Cuda CuCtxSynchronize 0,
      Cuda (CuModuleUnload 5) 0, Cb_release 70, Cb_cleanup 60, File_unmap 80,
      Cuda (CuCtxDestroy 11) 0, Cuda (CuCtxDestroy 12) 0,
      Cuda (CuCtxSetCurrent None) 1, MemoryContextDelete 40]"
  by (simp add: teardown_defs busy_fields CUDA_SUCCESS_def)

lemma running_teardown_all_fail:
  "fst (pgstrom_release_gpucontext failing_env 50 True running_state) = Inr ()
   \<and> trace (snd (pgstrom_release_gpucontext failing_env 50 True running_state)) =
     [Cuda (CuCtxSetCurrent (Some 11)) 1, Elog_WARNING ''failed on cuCtxSetCurrent'',
      Cuda CuCtxSynchronize 1, Elog_WARNING ''failed on cuCtxSynchronize'',
      Cuda (CuCtxSetCurrent (Some 12)) 1, Elog_WARNING ''failed on cuCtxSetCurrent'',
      Cuda CuCtxSynchronize 1, Elog_WARNING ''failed on cuCtxSynchronize'',
      Cuda (CuModuleUnload 5) 1, Elog_WARNING ''failed on cuModuleUnload'',
      Elog_WARNING ''Unreferenced GpuTask leak'', Cb_release 70,
      Elog_WARNING ''Unreferenced GpuTaskState leak'', Cb_cleanup 60, File_unmap 80,
      Cuda (CuCtxDestroy 11) 1, Elog_WARNING ''failed on cuCtxDestroy'',
      Cuda (CuCtxDestroy 12) 1, Elog_WARNING ''failed on cuCtxDestroy'',
      Cuda (CuCtxSetCurrent None) 1, MemoryContextDelete 40]"
  by (simp add: teardown_defs running_fields CUDA_SUCCESS_def unlink_everywhere_def)

lemma running_sync_all_fail:
  "trace (snd (pgstrom_sync_gpucontext failing_env 50 running_state)) =
     [Cuda (CuCtxSetCurrent (Some 11)) 1, Elog_WARNING ''failed on cuCtxSetCurrent'',
      Cuda CuCtxSynchronize 1, Elog_WARNING ''failed on cuCtxSynchronize'',
      Cuda (CuCtxSetCurrent (Some 12)) 1, Elog_WARNING ''failed on cuCtxSetCurrent'',
      Cuda CuCtxSynchronize 1, Elog_WARNING ''failed on cuCtxSynchronize'']"
  by (simp add: teardown_defs running_fields CUDA_SUCCESS_def)

text \<open>
  Claim C2 as stated fails in its second half: when the final \<open>cuCtxSetCurrent(NULL)\<close>
  fails, the failure is reported nowhere; the trace of that teardown holds a failed
  driver call and no warning.
\<close>

theorem teardown_reset_failure_is_silent:
  "trace (snd (pgstrom_release_gpucontext reset_fails 50 False busy_state)) =
     [Cuda (CuCtxSetCurrent (Some 11)) 0, Cuda CuCtxSynchronize 0,
      Cuda (CuCtxSetCurrent (Some 12)) 0, Cuda CuCtxSynchronize 0,
      Cuda (CuModuleUnload 5) 0, Cb_release 70, Cb_cleanup 60, File_unmap 80,
      Cuda (CuCtxDestroy 11) 0, Cuda (CuCtxDestroy 12) 0,
      Cuda (CuCtxSetCurrent None) 1, MemoryContextDelete 40]
   \<and> failed_calls (trace (snd (pgstrom_release_gpucontext reset_fails 50 False busy_state)))
       = [CuCtxSetCurrent None]
   \<and> \<not> warned (\<lambda>c. True) (trace (snd (pgstrom_release_gpucontext reset_fails 50 False busy_state)))"
  by (simp add: busy_teardown_reset_fails CUDA_SUCCESS_def)

text \<open>
  The teardown calls the release callback of every tracked task, and the task
  initialisation leaves that callback null: the teardown of a context with a task that
  this file has initialised stops at the call.
\<close>

lemma teardown_after_init_calls_null:
  "fst (pgstrom_init_gputask quiet_env 60 71 True True busy_state) = Inr ()
   \<and> fst (pgstrom_release_gpucontext quiet_env 50 False
            (snd (pgstrom_init_gputask quiet_env 60 71 True True busy_state))) = Inl NullCall"
  by (simp add: pgstrom_init_gputask_def c_rem_def push_tracked_def teardown_defs busy_fields
      CUDA_SUCCESS_def)

text \<open>
  The teardown of a context whose task is still on the running collection, with callbacks
  that leave the task states alone: a build with assertions stops at the assertion on
  the running collection, after the drain and before any destruction; a build without
  assertions runs on and destroys the sub-context of the task.
\<close>

lemma running_teardown_assertion:
  "fst (pgstrom_release_gpucontext quiet_env 50 False running_state) =
     Inl (AssertFailure ''dlist_is_empty(&gts->running_tasks)'')
   \<and> trace (snd (pgstrom_release_gpucontext quiet_env 50 False running_state)) =
     [Cuda (CuCtxSetCurrent (Some 11)) 0, Cuda CuCtxSynchronize 0,
      Cuda (CuCtxSetCurrent (Some 12)) 0, Cuda CuCtxSynchronize 0,
      Cuda (CuModuleUnload 5) 0, Cb_release 70, Cb_cleanup 60]"
  by (simp add: teardown_defs running_fields CUDA_SUCCESS_def)

lemma running_teardown_production:
  "fst (pgstrom_release_gpucontext production_env 50 False running_state) = Inr ()
   \<and> trace (snd (pgstrom_release_gpucontext production_env 50 False running_state)) =
     [Cuda (CuCtxSetCurrent (Some 11)) 1, Elog_WARNING ''failed on cuCtxSetCurrent'',
      Cuda CuCtxSynchronize 1, Elog_WARNING ''failed on cuCtxSynchronize'',
      Cuda (CuCtxSetCurrent (Some 12)) 1, Elog_WARNING ''failed on cuCtxSetCurrent'',
      Cuda CuCtxSynchronize 1, Elog_WARNING ''failed on cuCtxSynchronize'',
      Cuda (CuModuleUnload 5) 1, Elog_WARNING ''failed on cuModuleUnload'',
      Cb_release 70, Cb_cleanup 60, File_unmap 80,
      Cuda (CuCtxDestroy 11) 1, Elog_WARNING ''failed on cuCtxDestroy'',
      Cuda (CuCtxDestroy 12) 1, Elog_WARNING ''failed on cuCtxDestroy'',
      Cuda (CuCtxSetCurrent None) 1, MemoryContextDelete 40]"
  by (simp add: teardown_defs running_fields CUDA_SUCCESS_def)

theorem teardown_drains_first_witness:
  "map_option running_tasks (gtstates running_state 60) = Some [70]
   \<and> map_option cuda_context (gputasks running_state 70) = Some 11
   \<and> fst (pgstrom_release_gpucontext failing_env 50 True running_state) = Inr ()
   \<and> new_events running_state (snd (pgstrom_release_gpucontext failing_env 50 True running_state)) =
     [Cuda (CuCtxSetCurrent (Some 11)) 1, Elog_WARNING ''failed on cuCtxSetCurrent'',
      Cuda CuCtxSynchronize 1, Elog_WARNING ''failed on cuCtxSynchronize'',
      Cuda (CuCtxSetCurrent (Some 12)) 1, Elog_WARNING ''failed on cuCtxSetCurrent'',
      Cuda CuCtxSynchronize 1, Elog_WARNING ''failed on cuCtxSynchronize'',
      Cuda (CuModuleUnload 5) 1, Elog_WARNING ''failed on cuModuleUnload'',
      Elog_WARNING ''Unreferenced GpuTask leak'', Cb_release 70,
      Elog_WARNING ''Unreferenced GpuTaskState leak'', Cb_cleanup 60, File_unmap 80,
      Cuda (CuCtxDestroy 11) 1, Elog_WARNING ''failed on cuCtxDestroy'',
      Cuda (CuCtxDestroy 12) 1, Elog_WARNING ''failed on cuCtxDestroy'',
      Cuda (CuCtxSetCurrent None) 1, MemoryContextDelete 40]
   \<and> calls_of (new_events running_state (snd (pgstrom_sync_gpucontext failing_env 50 running_state)))
       = [CuCtxSetCurrent (Some 11), CuCtxSynchronize, CuCtxSetCurrent (Some 12), CuCtxSynchronize]
   \<and> destroyed (new_events running_state
        (snd (pgstrom_release_gpucontext failing_env 50 True running_state))) = [11, 12]
   \<and> last (new_events running_state
        (snd (pgstrom_release_gpucontext failing_env 50 True running_state)))
       = MemoryContextDelete 40
   \<and> warned status_checked (new_events running_state
        (snd (pgstrom_release_gpucontext failing_env 50 True running_state)))
   \<and> fst (pgstrom_release_gpucontext (failing_env\<lparr>cuda_result := \<lambda>tr c. CUDA_SUCCESS\<rparr>)
            50 True running_state) = Inr ()
   \<and> gcontexts (snd (pgstrom_release_gpucontext failing_env 50 True running_state)) 50 = None
   \<and> fst (pgstrom_release_gpucontext production_env 50 False running_state) = Inr ()
   \<and> map_option running_tasks
        (gtstates (snd (pgstrom_release_gpucontext production_env 50 False running_state)) 60)
       = Some [70]
   \<and> destroyed (new_events running_state
        (snd (pgstrom_release_gpucontext production_env 50 False running_state))) = [11, 12]"
proof -
  have ok: "fst (pgstrom_release_gpucontext failing_env 50 True running_state) = Inr ()"
    using running_teardown_all_fail by (rule conjunct1)
  have okp: "fst (pgstrom_release_gpucontext production_env 50 False running_state) = Inr ()"
    using running_teardown_production by (rule conjunct1)
  have tr: "new_events running_state
      (snd (pgstrom_release_gpucontext failing_env 50 True running_state)) =
     [Cuda (CuCtxSetCurrent (Some 11)) 1, Elog_WARNING ''failed on cuCtxSetCurrent'',
      Cuda CuCtxSynchronize 1, Elog_WARNING ''failed on cuCtxSynchronize'',
      Cuda (CuCtxSetCurrent (Some 12)) 1, Elog_WARNING ''failed on cuCtxSetCurrent'',
      Cuda CuCtxSynchronize 1, Elog_WARNING ''failed on cuCtxSynchronize'',
      Cuda (CuModuleUnload 5) 1, Elog_WARNING ''failed on cuModuleUnload'',
      Elog_WARNING ''Unreferenced GpuTask leak'', Cb_release 70,
      Elog_WARNING ''Unreferenced GpuTaskState leak'', Cb_cleanup 60, File_unmap 80,
      Cuda (CuCtxDestroy 11) 1, Elog_WARNING ''failed on cuCtxDestroy'',
      Cuda (CuCtxDestroy 12) 1, Elog_WARNING ''failed on cuCtxDestroy'',
      Cuda (CuCtxSetCurrent None) 1, MemoryContextDelete 40]"
    using running_teardown_all_fail by (simp add: new_events_def running_fields)
  have rt: "map_option running_tasks
        (gtstates (snd (pgstrom_release_gpucontext production_env 50 False running_state)) 60)
       = Some [70]"
    by (simp add: teardown_defs running_fields CUDA_SUCCESS_def)
  have sc: "sub_contexts \<lparr>refcnt = 1, resowner = 7, memcxt = 40, num_context = 2, cur_context = 0,
           dev_context = [11, 12], state_list = [60], pds_list = [80]\<rparr> = [11, 12]"
    by (simp add: sub_contexts_def)
  note th1 = teardown_drains_first[OF running_fields(2), of failing_env True "\<lambda>tr c. CUDA_SUCCESS"]
  note th2 = teardown_drains_first[OF running_fields(2), of production_env False "\<lambda>tr c. CUDA_SUCCESS"]
  have a: "calls_of (new_events running_state (snd (pgstrom_sync_gpucontext failing_env 50 running_state)))
       = [CuCtxSetCurrent (Some 11), CuCtxSynchronize, CuCtxSetCurrent (Some 12), CuCtxSynchronize]"
    using th1 by (simp add: drain_calls_def sc)
  have b: "destroyed (new_events running_state
        (snd (pgstrom_release_gpucontext failing_env 50 True running_state))) = [11, 12]"
    "last (new_events running_state
        (snd (pgstrom_release_gpucontext failing_env 50 True running_state)))
       = MemoryContextDelete 40"
    "warned status_checked (new_events running_state
        (snd (pgstrom_release_gpucontext failing_env 50 True running_state)))"
    "fst (pgstrom_release_gpucontext (failing_env\<lparr>cuda_result := \<lambda>tr c. CUDA_SUCCESS\<rparr>)
            50 True running_state) = Inr ()"
    "gcontexts (snd (pgstrom_release_gpucontext failing_env 50 True running_state)) 50 = None"
    using th1 ok by (simp_all add: sc)
  have c: "destroyed (new_events running_state
        (snd (pgstrom_release_gpucontext production_env 50 False running_state))) = [11, 12]"
    using th2 okp by (simp add: sc)
  have r0: "map_option running_tasks (gtstates running_state 60) = Some [70]"
    "map_option cuda_context (gputasks running_state 70) = Some 11"
    by (simp_all add: running_fields)
  from r0 ok tr a b okp rt c show ?thesis by blast
qed

section \<open>What the teardown leaves alone\<close>

lemma warn_frame [simp]:
  "gcontext_hash (warn_unless_success rc msg s) = gcontext_hash s"
  "gcontext_last (warn_unless_success rc msg s) = gcontext_last s"
  "gcontexts (warn_unless_success rc msg s) = gcontexts s"
  by (simp_all add: warn_unless_success_def)

lemma unlink_registry_frame [simp]:
  "gcontext_hash (unlink_state g t s) = gcontext_hash s"
  "gcontext_last (unlink_state g t s) = gcontext_last s"
  "p \<noteq> g \<Longrightarrow> gcontexts (unlink_state g t s) p = gcontexts s p"
  "gcontext_hash (unlink_pds g q s) = gcontext_hash s"
  "gcontext_last (unlink_pds g q s) = gcontext_last s"
  "p \<noteq> g \<Longrightarrow> gcontexts (unlink_pds g q s) p = gcontexts s p"
  "gcontext_hash (unlink_task t k s) = gcontext_hash s"
  "gcontext_last (unlink_task t k s) = gcontext_last s"
  "gcontexts (unlink_task t k s) = gcontexts s"
  by (simp_all add: unlink_state_def unlink_pds_def unlink_task_def split: option.splits)

lemma callback_frame [simp]:
  "gcontext_hash (call_cb_release e k s) = gcontext_hash s"
  "gcontext_last (call_cb_release e k s) = gcontext_last s"
  "gcontexts (call_cb_release e k s) = gcontexts s"
  "gcontext_hash (call_cb_cleanup e t s) = gcontext_hash s"
  "gcontext_last (call_cb_cleanup e t s) = gcontext_last s"
  "gcontexts (call_cb_cleanup e t s) = gcontexts s"
  by (simp_all add: call_cb_release_def call_cb_cleanup_def)

lemma sync_loop_frame:
  "gcontext_hash (snd (sync_loop e dc is s)) = gcontext_hash s
   \<and> gcontext_last (snd (sync_loop e dc is s)) = gcontext_last s
   \<and> gcontexts (snd (sync_loop e dc is s)) = gcontexts s"
  by (induction "is" arbitrary: s) (simp_all add: cuda_eq split: option.splits)

lemma destroy_loop_frame:
  "gcontext_hash (snd (destroy_loop e dc is s)) = gcontext_hash s
   \<and> gcontext_last (snd (destroy_loop e dc is s)) = gcontext_last s
   \<and> gcontexts (snd (destroy_loop e dc is s)) = gcontexts s"
  by (induction "is" arbitrary: s) (simp_all add: cuda_eq split: option.splits)

lemma release_tasks_frame:
  "gcontext_hash (snd (release_tasks e ic t ks s)) = gcontext_hash s
   \<and> gcontext_last (snd (release_tasks e ic t ks s)) = gcontext_last s
   \<and> gcontexts (snd (release_tasks e ic t ks s)) = gcontexts s"
  by (induction ks arbitrary: s ic) (simp_all add: Let_def split: option.splits)

lemma unload_module_frame [simp]:
  "gcontext_hash (unload_module e t st s) = gcontext_hash s"
  "gcontext_last (unload_module e t st s) = gcontext_last s"
  "gcontexts (unload_module e t st s) = gcontexts s"
  by (simp_all add: unload_module_def cuda_eq split: option.splits)

lemma release_states_frame:
  "gcontext_hash (snd (release_states e g ic ts s)) = gcontext_hash s
   \<and> gcontext_last (snd (release_states e g ic ts s)) = gcontext_last s
   \<and> (p \<noteq> g \<longrightarrow> gcontexts (snd (release_states e g ic ts s)) p = gcontexts s p)"
proof (induction ts arbitrary: s)
  case Nil
  show ?case by simp
next
  case (Cons t rest)
  show ?case
  proof (cases "gtstates s t")
    case None
    then show ?thesis by simp
  next
    case (Some st)
    define sb where "sb = unload_module e t st (unlink_state g t s)"
    define r1 where "r1 = fst (release_tasks e ic t (tracked_tasks st) sb)"
    define s1 where "s1 = snd (release_tasks e ic t (tracked_tasks st) sb)"
    define s2 where "s2 = (if ic then emit (Elog_WARNING ''Unreferenced GpuTaskState leak'') s1 else s1)"
    define s3 where "s3 = (case gtstates s2 t of
                 None \<Rightarrow> s2
               | Some ts2 \<Rightarrow> if cb_cleanup ts2 then call_cb_cleanup e t s2 else s2)"
    note step = release_states_step[OF Some r1_def[unfolded sb_def] s1_def[unfolded sb_def]
        s2_def s3_def, where rest = rest]
    have f1: "gcontext_hash s1 = gcontext_hash s" "gcontext_last s1 = gcontext_last s"
      "p \<noteq> g \<longrightarrow> gcontexts s1 p = gcontexts s p"
      using release_tasks_frame[of e ic t "tracked_tasks st" sb]
      by (simp_all add: s1_def sb_def)
    have f2: "gcontext_hash s2 = gcontext_hash s" "gcontext_last s2 = gcontext_last s"
      "p \<noteq> g \<longrightarrow> gcontexts s2 p = gcontexts s p"
      using f1 by (simp_all add: s2_def)
    have f3: "gcontext_hash s3 = gcontext_hash s" "gcontext_last s3 = gcontext_last s"
      "p \<noteq> g \<longrightarrow> gcontexts s3 p = gcontexts s p"
      using f2 by (simp_all add: s3_def split: option.splits)
    show ?thesis
      unfolding step using f1 f2 f3 Cons.IH[of s3]
      by (simp split: sum.splits)
  qed
qed

lemma release_pds_frame:
  "gcontext_hash (snd (release_pds g ps s)) = gcontext_hash s
   \<and> gcontext_last (snd (release_pds g ps s)) = gcontext_last s
   \<and> (p \<noteq> g \<longrightarrow> gcontexts (snd (release_pds g ps s)) p = gcontexts s p)"
  by (induction ps arbitrary: s) (simp_all add: Let_def split: option.splits)

lemma teardown_frame:
  "gcontext_hash (snd (pgstrom_release_gpucontext e g ic s)) = gcontext_hash s
   \<and> gcontext_last (snd (pgstrom_release_gpucontext e g ic s)) = gcontext_last s
   \<and> (p \<noteq> g \<longrightarrow> gcontexts (snd (pgstrom_release_gpucontext e g ic s)) p = gcontexts s p)"
proof (cases "gcontexts s g")
  case None
  then show ?thesis
    by (simp add: pgstrom_release_gpucontext_def pgstrom_sync_gpucontext_def)
next
  case (Some c)
  let ?is = "[0..<nat (sint (num_context c))]"
  let ?dc = "dev_context c"
  define r1 where "r1 = fst (pgstrom_sync_gpucontext e g s)"
  define s1 where "s1 = snd (pgstrom_sync_gpucontext e g s)"
  define r2 where "r2 = fst (release_states e g ic (state_list c) s1)"
  define s2 where "s2 = snd (release_states e g ic (state_list c) s1)"
  define r3 where "r3 = fst (release_pds g (pds_list c) s2)"
  define s3 where "s3 = snd (release_pds g (pds_list c) s2)"
  define r4 where "r4 = fst (destroy_loop e ?dc ?is s3)"
  define s4 where "s4 = snd (destroy_loop e ?dc ?is s3)"
  have f1: "gcontext_hash s1 = gcontext_hash s" "gcontext_last s1 = gcontext_last s"
    "gcontexts s1 = gcontexts s"
    using sync_loop_frame[of e ?dc ?is s] Some
    by (simp_all add: s1_def pgstrom_sync_gpucontext_def)
  have g1: "gcontexts s1 g = Some c" by (simp add: f1 Some)
  note step = teardown_step[OF Some r1_def s1_def r2_def s2_def r3_def s3_def r4_def s4_def g1]
  have f2: "gcontext_hash s2 = gcontext_hash s" "gcontext_last s2 = gcontext_last s"
    "p \<noteq> g \<longrightarrow> gcontexts s2 p = gcontexts s p"
    using release_states_frame[of e g ic "state_list c" s1 p] f1 by (simp_all add: s2_def)
  have f3: "gcontext_hash s3 = gcontext_hash s" "gcontext_last s3 = gcontext_last s"
    "p \<noteq> g \<longrightarrow> gcontexts s3 p = gcontexts s p"
    using release_pds_frame[of g "pds_list c" s2 p] f2 by (simp_all add: s3_def)
  have f4: "gcontext_hash s4 = gcontext_hash s" "gcontext_last s4 = gcontext_last s"
    "p \<noteq> g \<longrightarrow> gcontexts s4 p = gcontexts s p"
    using destroy_loop_frame[of e ?dc ?is s3] f3 by (simp_all add: s4_def)
  show ?thesis
    unfolding step using f1 f2 f3 f4 by (simp split: sum.splits)
qed

section \<open>Reference counting\<close>

lemma sint_of_nat_small: "n \<le> 2147483647 \<Longrightarrow> sint (of_nat n :: 32 word) = int n"
proof -
  assume "n \<le> 2147483647"
  then have "signed_take_bit 31 (int n) = int n"
    by (intro signed_take_bit_int_eq_self) simp_all
  then show ?thesis by (simp add: signed_of_nat)
qed

lemma sint_one_word: "sint (b :: 32 word) = 1 \<Longrightarrow> b = 1"
proof -
  assume "sint b = 1"
  then have "sint b = sint (1 :: 32 word)" by simp
  then show ?thesis by (rule signed_word_eqI)
qed

lemma chain_find_refcnt:
  "h g = Some c \<Longrightarrow> chain_find (h(g \<mapsto> c\<lparr>refcnt := x\<rparr>)) r ps = chain_find h r ps"
  by (induction ps) (auto split: option.splits)

lemma chain_find_None_D:
  "chain_find h r ps = Inr None \<Longrightarrow> \<forall>p\<in>set ps. \<exists>c. h p = Some c \<and> resowner c \<noteq> r"
  by (induction ps) (auto split: option.splits if_splits)

lemma chain_find_snoc:
  assumes "chain_find h r ps = Inr None" and "h g = None" and "resowner c = r"
  shows "chain_find (h(g \<mapsto> c)) r (ps @ [g]) = Inr (Some g)"
  using assms by (induction ps) (auto split: option.splits if_splits)

lemma get_on_chain_hit:
  assumes "slot_miss e s" and "chain_lookup e s = Inr (Some g)" and "gcontexts s g = Some c"
  shows "pgstrom_get_gpucontext e s =
           (Inr g, s\<lparr>gcontexts := (gcontexts s)(g \<mapsto> c\<lparr>refcnt := refcnt c + 1\<rparr>),
                     trace := trace s @ lock_pairs 1\<rparr>)"
proof -
  have c1: "chain_lookup e (emit (SpinLockAcquire gcontext_lock) s) = Inr (Some g)"
    using assms(2) by simp
  from slow_path_on_chain_hit[OF c1] assms(3) show ?thesis
    by (simp add: get_on_slot_miss[OF assms(1)] refcnt_incr_def emit_def lock_pairs_def)
qed

lemma served_after_hit:
  assumes "slot_miss e s" and "chain_lookup e s = Inr (Some g)" and "gcontexts s g = Some c"
  shows "slot_miss e (s\<lparr>gcontexts := (gcontexts s)(g \<mapsto> c\<lparr>refcnt := x\<rparr>), trace := tr\<rparr>)
       \<and> chain_lookup e (s\<lparr>gcontexts := (gcontexts s)(g \<mapsto> c\<lparr>refcnt := x\<rparr>), trace := tr\<rparr>)
           = Inr (Some g)"
proof -
  from assms(2) have "resowner c = CurrentResourceOwner e"
    using assms(3) by (auto simp: chain_lookup_def dest!: chain_find_Some)
  then show ?thesis
    using assms by (auto simp: slot_miss_def chain_lookup_def chain_find_refcnt split: option.splits)
qed

lemma get_times_on_chain_hit:
  assumes "slot_miss e s" and "chain_lookup e s = Inr (Some g)" and "gcontexts s g = Some c"
  shows "get_times e n s =
           (Inr (replicate n g),
            s\<lparr>gcontexts := (gcontexts s)(g \<mapsto> c\<lparr>refcnt := refcnt c + of_nat n\<rparr>),
              trace := trace s @ lock_pairs n\<rparr>)"
  using assms
proof (induction n arbitrary: s c)
  case 0
  have "(gcontexts s)(g \<mapsto> c) = gcontexts s" using "0.prems"(3) by (rule fun_upd_idem)
  then show ?case by (simp add: lock_pairs_def)
next
  case (Suc n)
  let ?c1 = "c\<lparr>refcnt := refcnt c + 1\<rparr>"
  let ?s1 = "s\<lparr>gcontexts := (gcontexts s)(g \<mapsto> ?c1), trace := trace s @ lock_pairs 1\<rparr>"
  note h = served_after_hit[OF Suc.prems, where x = "refcnt c + 1" and tr = "trace s @ lock_pairs 1"]
  have g1: "gcontexts ?s1 g = Some ?c1" by simp
  have ih: "get_times e n ?s1 =
           (Inr (replicate n g),
            ?s1\<lparr>gcontexts := (gcontexts ?s1)(g \<mapsto> ?c1\<lparr>refcnt := refcnt ?c1 + of_nat n\<rparr>),
              trace := trace ?s1 @ lock_pairs n\<rparr>)"
    by (rule Suc.IH[OF h[THEN conjunct1] h[THEN conjunct2] g1])
  have step: "get_times e (Suc n) s =
      (case get_times e n ?s1 of (Inl er, s2) \<Rightarrow> (Inl er, s2) | (Inr gs, s2) \<Rightarrow> (Inr (g # gs), s2))"
    by (simp add: get_on_chain_hit[OF Suc.prems])
  show ?case
    unfolding step ih by (simp add: lock_pairs_def add.assoc fun_upd_def cong: if_cong)
qed

lemma put_only_decrements:
  assumes "gcontexts s g = Some c" and "1 < sint (refcnt c)"
  shows "pgstrom_put_gpucontext e g s =
           (Inr (), s\<lparr>gcontexts := (gcontexts s)(g \<mapsto> c\<lparr>refcnt := refcnt c - 1\<rparr>),
                      trace := trace s @ lock_pairs 1\<rparr>)"
proof -
  have "refcnt c \<noteq> 1" using assms(2) by auto
  then show ?thesis
    using assms by (simp add: pgstrom_put_gpucontext_def Let_def emit_def lock_pairs_def)
qed

lemma put_times_only_decrement:
  assumes "gcontexts s g = Some c" and "int k < sint (refcnt c)"
  shows "put_times e g k s =
           (Inr (), s\<lparr>gcontexts := (gcontexts s)(g \<mapsto> c\<lparr>refcnt := refcnt c - of_nat k\<rparr>),
                      trace := trace s @ lock_pairs k\<rparr>)"
  using assms
proof (induction k arbitrary: s c)
  case 0
  have "(gcontexts s)(g \<mapsto> c) = gcontexts s" using "0.prems"(1) by (rule fun_upd_idem)
  then show ?case by (simp add: lock_pairs_def)
next
  case (Suc k)
  let ?c1 = "c\<lparr>refcnt := refcnt c - 1\<rparr>"
  let ?s1 = "s\<lparr>gcontexts := (gcontexts s)(g \<mapsto> ?c1), trace := trace s @ lock_pairs 1\<rparr>"
  have pos: "0 < sint (refcnt c)" using Suc.prems(2) by simp
  have g1: "gcontexts ?s1 g = Some ?c1" by simp
  have r1: "int k < sint (refcnt ?c1)" using Suc.prems(2) sint_pred[OF pos] by simp
  have p: "pgstrom_put_gpucontext e g s = (Inr (), ?s1)"
    using Suc.prems by (intro put_only_decrements) simp_all
  have step: "put_times e g (Suc k) s = put_times e g k ?s1"
    by (simp add: p)
  show ?case
    unfolding step Suc.IH[OF g1 r1] by (simp add: lock_pairs_def diff_diff_eq fun_upd_def cong: if_cong)
qed

lemma put_traps_at_zero:
  assumes "gcontexts s g = Some c" and "sint (refcnt c) \<le> 0" and "USE_ASSERT_CHECKING e"
  shows "pgstrom_put_gpucontext e g s =
           (Inl (AssertFailure ''gcontext->refcnt > 0''), emit (SpinLockAcquire gcontext_lock) s)"
  using assms by (simp add: pgstrom_put_gpucontext_def Let_def)

lemma put_last_reference:
  assumes "gcontexts s g = Some c" and "refcnt c = 1"
  shows "pgstrom_put_gpucontext e g s =
           pgstrom_release_gpucontext e g True
             (emit (SpinLockRelease gcontext_lock)
                (unlink_chain g (clear_last g
                   ((emit (SpinLockAcquire gcontext_lock) s)
                      \<lparr>gcontexts := (gcontexts s)(g \<mapsto> c\<lparr>refcnt := 0\<rparr>)\<rparr>))))"
  using assms by (simp add: pgstrom_put_gpucontext_def Let_def)

lemma put_times_one: "put_times e g (Suc 0) s = pgstrom_put_gpucontext e g s"
  by (cases "pgstrom_put_gpucontext e g s") (auto split: sum.splits)

lemma put_times_to_last:
  assumes "gcontexts s g = Some c" and "sint (refcnt c) = int (Suc k)"
  shows "put_times e g (Suc k) s =
           pgstrom_put_gpucontext e g
             (s\<lparr>gcontexts := (gcontexts s)(g \<mapsto> c\<lparr>refcnt := 1\<rparr>),
                trace := trace s @ lock_pairs k\<rparr>)"
  using assms
proof (induction k arbitrary: s c)
  case 0
  have "refcnt c = 1" using "0.prems"(2) by (intro sint_one_word) simp
  then have "c\<lparr>refcnt := 1\<rparr> = c" by simp
  then have "(gcontexts s)(g \<mapsto> c\<lparr>refcnt := 1\<rparr>) = gcontexts s"
    using "0.prems"(1) by (simp add: fun_upd_idem)
  then show ?case by (simp only: put_times_one) (simp add: lock_pairs_def)
next
  case (Suc k)
  let ?c1 = "c\<lparr>refcnt := refcnt c - 1\<rparr>"
  let ?s1 = "s\<lparr>gcontexts := (gcontexts s)(g \<mapsto> ?c1), trace := trace s @ lock_pairs 1\<rparr>"
  have pos: "0 < sint (refcnt c)" using Suc.prems(2) by simp
  have g1: "gcontexts ?s1 g = Some ?c1" by simp
  have r1: "sint (refcnt ?c1) = int (Suc k)" using Suc.prems(2) sint_pred[OF pos] by simp
  have p: "pgstrom_put_gpucontext e g s = (Inr (), ?s1)"
    using Suc.prems by (intro put_only_decrements) simp_all
  have step: "put_times e g (Suc (Suc k)) s = put_times e g (Suc k) ?s1"
    by (subst put_times.simps) (simp only: p prod.case sum.case)
  have st: "?s1\<lparr>gcontexts := (gcontexts ?s1)(g \<mapsto> ?c1\<lparr>refcnt := 1\<rparr>),
                trace := trace ?s1 @ lock_pairs k\<rparr> =
            s\<lparr>gcontexts := (gcontexts s)(g \<mapsto> c\<lparr>refcnt := 1\<rparr>),
                trace := trace s @ lock_pairs (Suc k)\<rparr>"
    by (simp add: lock_pairs_def fun_upd_def cong: if_cong)
  show ?case
    unfolding step Suc.IH[OF g1 r1] st ..
qed

lemma get_fresh_is_miss:
  assumes "fst (pgstrom_get_gpucontext e s) = Inr g" and "gcontexts s g = None"
  shows "slot_miss e s \<and> chain_lookup e s = Inr None"
proof -
  have nh: "\<not> slot_hit e s"
  proof
    assume "slot_hit e s"
    from get_on_slot_hit[OF this] assms show False by auto
  qed
  have sm: "slot_miss e s"
    using assms(1) nh
    by (auto simp: slot_miss_def slot_hit_def pgstrom_get_gpucontext_def Let_def
        split: option.splits)
  have "chain_lookup e s = Inr None"
  proof (cases "chain_lookup e s")
    case (Inl er)
    with assms(1) show ?thesis
      by (simp add: get_on_slot_miss[OF sm] get_slow_path_def chain_lookup_def Let_def)
  next
    case (Inr found)
    show ?thesis
    proof (cases found)
      case None
      with Inr show ?thesis by simp
    next
      case (Some g')
      with Inr have c: "chain_lookup e (emit (SpinLockAcquire gcontext_lock) s) = Inr (Some g')"
        by simp
      from slow_path_on_chain_hit[OF c] assms show ?thesis
        by (auto simp: get_on_slot_miss[OF sm])
    qed
  qed
  with sm show ?thesis by simp
qed

lemma unlink_chain_simps [simp]:
  "gcontexts (unlink_chain g s) = gcontexts s"
  "gcontext_last (unlink_chain g s) = gcontext_last s"
  "trace (unlink_chain g s) = trace s"
  "gcontext_hash (unlink_chain g s) i = removeAll g (gcontext_hash s i)"
  by (simp_all add: unlink_chain_def)

lemma clear_last_simps [simp]:
  "gcontexts (clear_last g s) = gcontexts s"
  "gcontext_hash (clear_last g s) = gcontext_hash s"
  "trace (clear_last g s) = trace s"
  "gcontext_last (clear_last g s) \<noteq> Some g"
  by (simp_all add: clear_last_def)

lemma lock_pairs_no_calls [simp]: "calls_of (lock_pairs n) = []"
  by (induction n) (simp_all add: lock_pairs_def)

lemma lock_pairs_not_destroyed [simp]: "destroyed (lock_pairs n) = []"
  by (induction n) (simp_all add: lock_pairs_def)

lemma lock_pairs_Suc: "lock_pairs (Suc n) = lock_pairs n @ [SpinLockAcquire gcontext_lock, SpinLockRelease gcontext_lock]"
  by (induction n) (simp_all add: lock_pairs_def)

lemma get_times_first:
  assumes "fst (get_times e (Suc n) s) = Inr (g # gs)"
  shows "fst (pgstrom_get_gpucontext e s) = Inr g"
  using assms by (auto split: prod.splits sum.splits)

lemma acquire_sequence:
  assumes first: "fst (pgstrom_get_gpucontext e s) = Inr g" and fresh: "gcontexts s g = None"
  shows "\<exists>sN c. get_times e (Suc n) s = (Inr (replicate (Suc n) g), sN)
           \<and> gcontexts sN g = Some c \<and> refcnt c = of_nat (Suc n) \<and> num_context c = 0
           \<and> state_list c = [] \<and> pds_list c = []
           \<and> g \<in> set (gcontext_hash sN (gpucontext_hash_index e (CurrentResourceOwner e)))"
proof -
  let ?r = "CurrentResourceOwner e"
  let ?h = "gpucontext_hash_index e ?r"
  let ?s0 = "emit (SpinLockAcquire gcontext_lock) s"
  from get_fresh_is_miss[OF first fresh] have sm: "slot_miss e s"
    and cl: "chain_lookup e s = Inr None" by simp_all
  have cl0: "chain_lookup e ?s0 = Inr None" using cl by simp
  obtain res s2 where cr: "pgstrom_create_gpucontext e ?r ?s0 = (res, s2)"
    by (cases "pgstrom_create_gpucontext e ?r ?s0")
  from first cr have res: "res = Inr g"
    by (auto simp: get_on_slot_miss[OF sm] slow_path_on_chain_miss[OF cl0] split: sum.splits)
  let ?new = "\<lparr>refcnt = 1, resowner = ?r,
               memcxt = HostPinMemContextCreate_out e (trace ?s0 @ runtime_init_events ?s0),
               num_context = 0, cur_context = 0, dev_context = [], state_list = [],
               pds_list = []\<rparr>"
  from create_Inr[OF cr[unfolded res]] have
    g2: "gcontexts s2 = (gcontexts s)(g \<mapsto> ?new)" and h2: "gcontext_hash s2 = gcontext_hash s"
    by simp_all
  have l2: "gcontext_last s2 = gcontext_last s"
    using create_last[of e ?r ?s0] by (simp add: cr)
  let ?s1 = "emit (SpinLockRelease gcontext_lock)
               (s2\<lparr>gcontext_hash := (gcontext_hash s2)(?h := gcontext_hash s2 ?h @ [g])\<rparr>)"
  have get1: "pgstrom_get_gpucontext e s = (Inr g, ?s1)"
    by (simp add: get_on_slot_miss[OF sm] slow_path_on_chain_miss[OF cl0] cr res)
  have g1: "gcontexts ?s1 g = Some ?new" by (simp add: g2)
  have sm1: "slot_miss e ?s1"
    using sm fresh by (auto simp: slot_miss_def l2 g2 split: option.splits)
  have cl1: "chain_lookup e ?s1 = Inr (Some g)"
    using cl fresh by (simp add: chain_lookup_def g2 h2 chain_find_snoc)
  let ?cN = "?new\<lparr>refcnt := refcnt ?new + of_nat n\<rparr>"
  let ?sN = "?s1\<lparr>gcontexts := (gcontexts ?s1)(g \<mapsto> ?cN), trace := trace ?s1 @ lock_pairs n\<rparr>"
  have gtn: "get_times e n ?s1 = (Inr (replicate n g), ?sN)"
    by (rule get_times_on_chain_hit[OF sm1 cl1 g1])
  have all: "get_times e (Suc n) s = (Inr (replicate (Suc n) g), ?sN)"
    by (subst get_times.simps) (simp only: get1 gtn prod.case sum.case replicate_Suc)
  show ?thesis
  proof (intro exI[of _ ?sN] exI[of _ ?cN] conjI)
    show "get_times e (Suc n) s = (Inr (replicate (Suc n) g), ?sN)" by (rule all)
    show "gcontexts ?sN g = Some ?cN" by simp
    show "g \<in> set (gcontext_hash ?sN ?h)" by (simp add: h2)
  qed simp_all
qed

lemma last_release_state:
  "emit (SpinLockRelease gcontext_lock)
     (unlink_chain g (clear_last g
        ((emit (SpinLockAcquire gcontext_lock)
            (s\<lparr>gcontexts := (gcontexts s)(g \<mapsto> c\<lparr>refcnt := 1\<rparr>),
               trace := trace s @ lock_pairs n\<rparr>))
           \<lparr>gcontexts := (gcontexts s)(g \<mapsto> c\<lparr>refcnt := 0\<rparr>)\<rparr>)))
   = s\<lparr>gcontext_hash := \<lambda>i. removeAll g (gcontext_hash s i),
        gcontext_last := (if gcontext_last s = Some g then None else gcontext_last s),
        gcontexts := (gcontexts s)(g \<mapsto> c\<lparr>refcnt := 0\<rparr>),
        trace := trace s @ lock_pairs (Suc n)\<rparr>"
  by (simp add: emit_def unlink_chain_def clear_last_def lock_pairs_Suc)

text \<open>
  Claim C1, amended. Let \<open>N\<close> be at least 1 and at most the largest \<open>int\<close>.

  If \<open>N\<close> acquire calls in a row return the same context, which did not exist before
  them (the first call created it), then the context has the reference count \<open>N\<close> and
  is on the chain of its scope.

  For a context with the reference count \<open>N\<close>, in any state of the registry: any
  \<open>k < N\<close> releases succeed and change nothing but the count, which is then
  \<open>N - k\<close> and positive, and the trace, which gets \<open>k\<close> pairs of lock events; the
  bucket table, the most-recently-used slot and the stores are as they were. The
  \<open>N\<close>-th release is the teardown of the context, run after the lock has been dropped,
  on the state in which the count is zero, the context is off every chain and the slot
  is empty if it pointed to the context and unchanged if not; the teardown leaves the
  chains and the slot that way. Its events follow the \<open>N\<close> pairs of lock events and
  begin with the full drain of the context, and when it returns every sub-context has
  been destroyed, the last event is the deletion of the arena and the context is gone.
\<close>

theorem reference_counting:
  assumes pos: "0 < N" and bound: "N \<le> 2147483647"
  shows
    "(fst (get_times e N s0) = Inr (replicate N g0) \<and> gcontexts s0 g0 = None \<longrightarrow>
        map_option refcnt (gcontexts (snd (get_times e N s0)) g0) = Some (of_nat N)
        \<and> g0 \<in> set (gcontext_hash (snd (get_times e N s0))
                     (gpucontext_hash_index e (CurrentResourceOwner e))))
     \<and> (gcontexts s g = Some c \<and> refcnt c = of_nat N \<longrightarrow>
        (\<forall>k<N. put_times e g k s =
                  (Inr (), s\<lparr>gcontexts := (gcontexts s)(g \<mapsto> c\<lparr>refcnt := of_nat (N - k)\<rparr>),
                             trace := trace s @ lock_pairs k\<rparr>)
                \<and> 0 < sint (of_nat (N - k) :: 32 word))
        \<and> put_times e g N s =
            pgstrom_release_gpucontext e g True
              (s\<lparr>gcontext_hash := \<lambda>i. removeAll g (gcontext_hash s i),
                 gcontext_last := (if gcontext_last s = Some g then None else gcontext_last s),
                 gcontexts := (gcontexts s)(g \<mapsto> c\<lparr>refcnt := 0\<rparr>),
                 trace := trace s @ lock_pairs N\<rparr>)
        \<and> (\<forall>i. gcontext_hash (snd (put_times e g N s)) i = removeAll g (gcontext_hash s i))
        \<and> gcontext_last (snd (put_times e g N s)) =
            (if gcontext_last s = Some g then None else gcontext_last s)
        \<and> take (length (lock_pairs N)) (new_events s (snd (put_times e g N s))) = lock_pairs N
        \<and> take (length (drain_calls c)) (calls_of (new_events s (snd (put_times e g N s))))
            = drain_calls c
        \<and> (fst (put_times e g N s) = Inr () \<longrightarrow>
             destroyed (new_events s (snd (put_times e g N s))) = sub_contexts c
             \<and> last (new_events s (snd (put_times e g N s))) = MemoryContextDelete (memcxt c)
             \<and> gcontexts (snd (put_times e g N s)) g = None))"
proof (intro conjI impI)
  assume a: "fst (get_times e N s0) = Inr (replicate N g0) \<and> gcontexts s0 g0 = None"
  from pos obtain n where N: "N = Suc n" by (cases N) auto
  have first: "fst (pgstrom_get_gpucontext e s0) = Inr g0"
    using a unfolding N by (intro get_times_first[of e n s0 g0 "replicate n g0"]) simp
  from a have fresh: "gcontexts s0 g0 = None" by simp
  from acquire_sequence[OF first fresh, of n] obtain sN c' where
    gt: "get_times e N s0 = (Inr (replicate N g0), sN)"
    and gN: "gcontexts sN g0 = Some c'" and rN: "refcnt c' = of_nat N"
    and inh: "g0 \<in> set (gcontext_hash sN (gpucontext_hash_index e (CurrentResourceOwner e)))"
    unfolding N by blast
  show "map_option refcnt (gcontexts (snd (get_times e N s0)) g0) = Some (of_nat N)"
    by (simp add: gt gN rN)
  show "g0 \<in> set (gcontext_hash (snd (get_times e N s0))
                     (gpucontext_hash_index e (CurrentResourceOwner e)))"
    by (simp add: gt inh)
next
  assume b: "gcontexts s g = Some c \<and> refcnt c = of_nat N"
  then have gc: "gcontexts s g = Some c" and rc: "refcnt c = of_nat N" by simp_all
  have sN: "sint (refcnt c) = int N" by (simp add: rc sint_of_nat_small[OF bound])
  from pos obtain n where N: "N = Suc n" by (cases N) auto
  let ?X = "s\<lparr>gcontext_hash := \<lambda>i. removeAll g (gcontext_hash s i),
                 gcontext_last := (if gcontext_last s = Some g then None else gcontext_last s),
                 gcontexts := (gcontexts s)(g \<mapsto> c\<lparr>refcnt := 0\<rparr>),
                 trace := trace s @ lock_pairs N\<rparr>"
  let ?sK = "s\<lparr>gcontexts := (gcontexts s)(g \<mapsto> c\<lparr>refcnt := 1\<rparr>),
                trace := trace s @ lock_pairs n\<rparr>"
  show "\<forall>k<N. put_times e g k s =
                  (Inr (), s\<lparr>gcontexts := (gcontexts s)(g \<mapsto> c\<lparr>refcnt := of_nat (N - k)\<rparr>),
                             trace := trace s @ lock_pairs k\<rparr>)
                \<and> 0 < sint (of_nat (N - k) :: 32 word)"
  proof (intro allI impI)
    fix k assume k: "k < N"
    then have lt: "int k < sint (refcnt c)" by (simp add: sN)
    have d: "refcnt c - of_nat k = of_nat (N - k)"
      using k by (simp add: rc of_nat_diff)
    have "N - k \<le> 2147483647" using bound by simp
    then have p: "sint (of_nat (N - k) :: 32 word) = int (N - k)" by (rule sint_of_nat_small)
    show "put_times e g k s =
                  (Inr (), s\<lparr>gcontexts := (gcontexts s)(g \<mapsto> c\<lparr>refcnt := of_nat (N - k)\<rparr>),
                             trace := trace s @ lock_pairs k\<rparr>)
                \<and> 0 < sint (of_nat (N - k) :: 32 word)"
      unfolding put_times_only_decrement[OF gc lt] d p using k by simp
  qed
  have gK: "gcontexts ?sK g = Some (c\<lparr>refcnt := 1\<rparr>)" by simp
  have "put_times e g N s = pgstrom_put_gpucontext e g ?sK"
    unfolding N using sN by (intro put_times_to_last[OF gc]) (simp add: N)
  also have "\<dots> = pgstrom_release_gpucontext e g True
             (emit (SpinLockRelease gcontext_lock)
                (unlink_chain g (clear_last g
                   ((emit (SpinLockAcquire gcontext_lock) ?sK)
                      \<lparr>gcontexts := (gcontexts ?sK)(g \<mapsto> c\<lparr>refcnt := 1\<rparr>\<lparr>refcnt := 0\<rparr>)\<rparr>))))"
    by (rule put_last_reference[OF gK]) simp
  also have "\<dots> = pgstrom_release_gpucontext e g True ?X"
    using last_release_state[of g s c n] by (simp add: N)
  finally show putN: "put_times e g N s = pgstrom_release_gpucontext e g True ?X" .
  have gX: "gcontexts ?X g = Some (c\<lparr>refcnt := 0\<rparr>)" by simp
  show "\<forall>i. gcontext_hash (snd (put_times e g N s)) i = removeAll g (gcontext_hash s i)"
    unfolding putN using teardown_frame[of e g True ?X] by simp
  show "gcontext_last (snd (put_times e g N s)) =
            (if gcontext_last s = Some g then None else gcontext_last s)"
    unfolding putN using teardown_frame[of e g True ?X] by simp
  from teardown_shape[OF gX, of e True] obtain D R where
    tR: "trace (snd (pgstrom_release_gpucontext e g True ?X)) = trace ?X @ D @ R"
    and cD: "calls_of D = drain_calls (c\<lparr>refcnt := 0\<rparr>)"
    and dD: "destroyed D = []"
    and fin: "fst (pgstrom_release_gpucontext e g True ?X) = Inr () \<longrightarrow>
          destroyed R = sub_contexts (c\<lparr>refcnt := 0\<rparr>) \<and> R \<noteq> []
          \<and> last R = MemoryContextDelete (memcxt (c\<lparr>refcnt := 0\<rparr>))
          \<and> calls_of R \<noteq> [] \<and> last (calls_of R) = CuCtxSetCurrent None
          \<and> gcontexts (snd (pgstrom_release_gpucontext e g True ?X)) g = None"
    by blast
  have dc: "drain_calls (c\<lparr>refcnt := 0\<rparr>) = drain_calls c"
    "sub_contexts (c\<lparr>refcnt := 0\<rparr>) = sub_contexts c"
    by (simp_all add: drain_calls_def sub_contexts_def)
  have "trace (snd (put_times e g N s)) = trace s @ (lock_pairs N @ D @ R)"
    unfolding putN tR by simp
  then have nE: "new_events s (snd (put_times e g N s)) = lock_pairs N @ D @ R"
    by (rule new_events_append)
  show "take (length (lock_pairs N)) (new_events s (snd (put_times e g N s))) = lock_pairs N"
    unfolding nE by simp
  show "take (length (drain_calls c)) (calls_of (new_events s (snd (put_times e g N s))))
            = drain_calls c"
    unfolding nE using cD by (simp add: dc)
  assume ok: "fst (put_times e g N s) = Inr ()"
  with fin have f: "destroyed R = sub_contexts c" "R \<noteq> []"
    "last R = MemoryContextDelete (memcxt c)"
    "gcontexts (snd (pgstrom_release_gpucontext e g True ?X)) g = None"
    unfolding putN by (simp_all add: dc)
  show "destroyed (new_events s (snd (put_times e g N s))) = sub_contexts c"
    unfolding nE using f dD by simp
  show "last (new_events s (snd (put_times e g N s))) = MemoryContextDelete (memcxt c)"
    unfolding nE using f by simp
  show "gcontexts (snd (put_times e g N s)) g = None"
    unfolding putN using f by simp
qed

lemma started_fresh: "gcontexts started_state 1009 = None"
  by (simp add: started_state_def initial_state_def)

lemma started_two_acquires:
  "fst (get_times quiet_env 2 started_state) = Inr (replicate 2 1009)"
proof -
  have f: "fst (pgstrom_get_gpucontext quiet_env started_state) = Inr 1009"
    using started_get by (rule conjunct1)
  from acquire_sequence[OF f started_fresh, of 1] show ?thesis
    by (auto simp only: Suc_1 fst_conv)
qed

lemma shared_fields:
  "gtstates shared_state 60 =
     Some \<lparr>gcontext = 50, cuda_module = Some 5, tracked_tasks = [70], running_tasks = [],
           pending_tasks = [], completed_tasks = [], cb_cleanup = True\<rparr>"
  "gcontexts shared_state 50 =
     Some \<lparr>refcnt = 2, resowner = 7, memcxt = 40, num_context = 2, cur_context = 0,
           dev_context = [11, 12], state_list = [60], pds_list = [80]\<rparr>"
  "gputasks shared_state 70 =
     Some \<lparr>gts = 60, cuda_stream = 1, cuda_device = 0, cuda_context = 11, cb_release = True\<rparr>"
  "pdstores shared_state 80 = Some \<lparr>kds_fname = Some ''kds''\<rparr>"
  "trace shared_state = []"
  "gcontext_last shared_state = Some 50"
  "gcontext_hash shared_state 7 = [50]"
  by (simp_all add: shared_state_def busy_state_def initial_state_def)

lemma shared_two_releases: "fst (put_times quiet_env 50 2 shared_state) = Inr ()"
  by (simp add: numeral_2_eq_2 pgstrom_put_gpucontext_def teardown_defs shared_fields
      unlink_chain_def clear_last_def CUDA_SUCCESS_def)

lemma shared_two_releases_trace:
  "trace (snd (put_times quiet_env 50 2 shared_state)) =
     [SpinLockAcquire gcontext_lock, SpinLockRelease gcontext_lock,
      SpinLockAcquire gcontext_lock, SpinLockRelease gcontext_lock,
      Cuda (CuCtxSetCurrent (Some 11)) 0, Cuda CuCtxSynchronize 0,
      Cuda (CuCtxSetCurrent (Some 12)) 0, Cuda CuCtxSynchronize 0,
      Cuda (CuModuleUnload 5) 0,
      Elog_WARNING ''Unreferenced GpuTask leak'', Cb_release 70,
      Elog_WARNING ''Unreferenced GpuTaskState leak'', Cb_cleanup 60, File_unmap 80,
      Cuda (CuCtxDestroy 11) 0, Cuda (CuCtxDestroy 12) 0,
      Cuda (CuCtxSetCurrent None) 0, MemoryContextDelete 40]"
  by (simp add: numeral_2_eq_2 pgstrom_put_gpucontext_def teardown_defs shared_fields
      unlink_chain_def clear_last_def CUDA_SUCCESS_def)

text \<open>
  Claim C1 as stated fails for a number of acquires that a C \<open>int\<close> cannot count: after
  \<open>2\<^sup>3\<^sup>1\<close> acquires of the same context its reference count has wrapped around to
  \<open>INT_MIN\<close>, and the first release stops at the assertion.
\<close>

theorem reference_count_wraps:
  "fst (get_times quiet_env 2147483648 started_state) = Inr (replicate 2147483648 1009)
   \<and> gcontexts started_state 1009 = None
   \<and> map_option (\<lambda>c. sint (refcnt c))
        (gcontexts (snd (get_times quiet_env 2147483648 started_state)) 1009)
       = Some (- 2147483648)
   \<and> fst (pgstrom_put_gpucontext quiet_env 1009
            (snd (get_times quiet_env 2147483648 started_state)))
       = Inl (AssertFailure ''gcontext->refcnt > 0'')"
proof -
  have S: "Suc 2147483647 = (2147483648 :: nat)" by simp
  have f: "fst (pgstrom_get_gpucontext quiet_env started_state) = Inr 1009"
    using started_get by (rule conjunct1)
  from acquire_sequence[OF f started_fresh, of 2147483647] obtain sN c where
    gt: "get_times quiet_env 2147483648 started_state = (Inr (replicate 2147483648 1009), sN)"
    and gN: "gcontexts sN 1009 = Some c" and rN: "refcnt c = of_nat 2147483648"
    unfolding S by blast
  have neg: "sint (refcnt c) = - 2147483648" unfolding rN by simp
  have le: "sint (refcnt c) \<le> 0" unfolding neg by simp
  have p1: "fst (get_times quiet_env 2147483648 started_state) = Inr (replicate 2147483648 1009)"
    by (simp only: gt fst_conv)
  have p3: "map_option (\<lambda>c. sint (refcnt c))
        (gcontexts (snd (get_times quiet_env 2147483648 started_state)) 1009)
       = Some (- 2147483648)"
    by (simp only: gt snd_conv gN option.map neg)
  have p4: "fst (pgstrom_put_gpucontext quiet_env 1009
            (snd (get_times quiet_env 2147483648 started_state)))
       = Inl (AssertFailure ''gcontext->refcnt > 0'')"
    by (simp only: gt snd_conv put_traps_at_zero[OF gN le env_fields(1)] fst_conv)
  from p1 started_fresh p3 p4 show ?thesis by blast
qed

theorem reference_counting_witness:
  "fst (get_times quiet_env 2 started_state) = Inr (replicate 2 1009)
   \<and> gcontexts started_state 1009 = None
   \<and> map_option refcnt (gcontexts (snd (get_times quiet_env 2 started_state)) 1009) = Some 2
   \<and> gcontext_last shared_state = Some 50
   \<and> gcontext_hash shared_state 7 = [50]
   \<and> map_option refcnt (gcontexts shared_state 50) = Some 2
   \<and> fst (put_times quiet_env 50 1 shared_state) = Inr ()
   \<and> map_option refcnt (gcontexts (snd (put_times quiet_env 50 1 shared_state)) 50) = Some 1
   \<and> gcontext_last (snd (put_times quiet_env 50 1 shared_state)) = Some 50
   \<and> gcontext_hash (snd (put_times quiet_env 50 1 shared_state)) 7 = [50]
   \<and> new_events shared_state (snd (put_times quiet_env 50 1 shared_state)) = lock_pairs 1
   \<and> fst (put_times quiet_env 50 2 shared_state) = Inr ()
   \<and> new_events shared_state (snd (put_times quiet_env 50 2 shared_state)) =
       [SpinLockAcquire gcontext_lock, SpinLockRelease gcontext_lock,
        SpinLockAcquire gcontext_lock, SpinLockRelease gcontext_lock,
        Cuda (CuCtxSetCurrent (Some 11)) 0, Cuda CuCtxSynchronize 0,
        Cuda (CuCtxSetCurrent (Some 12)) 0, Cuda CuCtxSynchronize 0,
        Cuda (CuModuleUnload 5) 0,
        Elog_WARNING ''Unreferenced GpuTask leak'', Cb_release 70,
        Elog_WARNING ''Unreferenced GpuTaskState leak'', Cb_cleanup 60, File_unmap 80,
        Cuda (CuCtxDestroy 11) 0, Cuda (CuCtxDestroy 12) 0,
        Cuda (CuCtxSetCurrent None) 0, MemoryContextDelete 40]
   \<and> gcontext_last (snd (put_times quiet_env 50 2 shared_state)) = None
   \<and> gcontext_hash (snd (put_times quiet_env 50 2 shared_state)) 7 = []
   \<and> take 4 (calls_of (new_events shared_state (snd (put_times quiet_env 50 2 shared_state))))
       = [CuCtxSetCurrent (Some 11), CuCtxSynchronize, CuCtxSetCurrent (Some 12), CuCtxSynchronize]
   \<and> destroyed (new_events shared_state (snd (put_times quiet_env 50 2 shared_state))) = [11, 12]
   \<and> last (new_events shared_state (snd (put_times quiet_env 50 2 shared_state)))
       = MemoryContextDelete 40
   \<and> gcontexts (snd (put_times quiet_env 50 2 shared_state)) 50 = None"
proof -
  have b: "(0::nat) < 2" "(2::nat) \<le> 2147483647" by simp_all
  let ?c = "\<lparr>refcnt = 2, resowner = 7, memcxt = 40, num_context = 2, cur_context = 0,
           dev_context = [11, 12], state_list = [60], pds_list = [80]\<rparr>"
  have sc: "sub_contexts ?c = [11, 12]"
    by (simp add: sub_contexts_def)
  have dc: "drain_calls ?c =
      [CuCtxSetCurrent (Some 11), CuCtxSynchronize, CuCtxSetCurrent (Some 12), CuCtxSynchronize]"
    by (simp add: drain_calls_def sc)
  have four: "length [CuCtxSetCurrent (Some 11), CuCtxSynchronize, CuCtxSetCurrent (Some 12),
      CuCtxSynchronize] = 4"
    by simp
  note th = reference_counting[OF b, where e = quiet_env and ?s0.0 = started_state
      and ?g0.0 = 1009 and s = shared_state and g = 50 and c = ?c]
  have hA: "fst (get_times quiet_env 2 started_state) = Inr (replicate 2 1009)
            \<and> gcontexts started_state 1009 = None"
    using started_two_acquires started_fresh by (rule conjI)
  have hB: "gcontexts shared_state 50 = Some ?c \<and> refcnt ?c = of_nat 2"
    by (simp add: shared_fields)
  note A = mp[OF th[THEN conjunct1] hA]
  note B = mp[OF th[THEN conjunct2] hB]
  have a1: "map_option refcnt (gcontexts (snd (get_times quiet_env 2 started_state)) 1009) = Some 2"
    using A by simp
  have one: "put_times quiet_env 50 1 shared_state =
      (Inr (), shared_state\<lparr>gcontexts := (gcontexts shared_state)(50 \<mapsto> ?c\<lparr>refcnt := of_nat (2 - 1)\<rparr>),
                             trace := trace shared_state @ lock_pairs 1\<rparr>)"
    using B[THEN conjunct1, rule_format, of 1] by simp
  have k1: "fst (put_times quiet_env 50 1 shared_state) = Inr ()"
    "map_option refcnt (gcontexts (snd (put_times quiet_env 50 1 shared_state)) 50) = Some 1"
    "gcontext_last (snd (put_times quiet_env 50 1 shared_state)) = Some 50"
    "gcontext_hash (snd (put_times quiet_env 50 1 shared_state)) 7 = [50]"
    "new_events shared_state (snd (put_times quiet_env 50 1 shared_state)) = lock_pairs 1"
    unfolding one by (simp_all add: shared_fields new_events_def)
  note B' = B[THEN conjunct2, THEN conjunct2]
  have h2: "gcontext_hash (snd (put_times quiet_env 50 2 shared_state)) 7 = []"
    using B'[THEN conjunct1, rule_format, of 7] by (simp add: shared_fields)
  have l2: "gcontext_last (snd (put_times quiet_env 50 2 shared_state)) = None"
    using B'[THEN conjunct2, THEN conjunct1] by (simp add: shared_fields)
  have d2: "take 4 (calls_of (new_events shared_state (snd (put_times quiet_env 50 2 shared_state))))
       = [CuCtxSetCurrent (Some 11), CuCtxSynchronize, CuCtxSetCurrent (Some 12), CuCtxSynchronize]"
    by (rule B'[THEN conjunct2, THEN conjunct2, THEN conjunct2, THEN conjunct1, unfolded dc four])
  note F = mp[OF B'[THEN conjunct2, THEN conjunct2, THEN conjunct2, THEN conjunct2]
      shared_two_releases]
  have f2: "destroyed (new_events shared_state (snd (put_times quiet_env 50 2 shared_state))) = [11, 12]"
    "last (new_events shared_state (snd (put_times quiet_env 50 2 shared_state)))
       = MemoryContextDelete 40"
    "gcontexts (snd (put_times quiet_env 50 2 shared_state)) 50 = None"
    using F by (simp_all add: sc)
  have s0: "map_option refcnt (gcontexts shared_state 50) = Some 2"
    by (simp add: shared_fields)
  have tr: "new_events shared_state (snd (put_times quiet_env 50 2 shared_state)) =
       [SpinLockAcquire gcontext_lock, SpinLockRelease gcontext_lock,
        SpinLockAcquire gcontext_lock, SpinLockRelease gcontext_lock,
        Cuda (CuCtxSetCurrent (Some 11)) 0, Cuda CuCtxSynchronize 0,
        Cuda (CuCtxSetCurrent (Some 12)) 0, Cuda CuCtxSynchronize 0,
        Cuda (CuModuleUnload 5) 0,
        Elog_WARNING ''Unreferenced GpuTask leak'', Cb_release 70,
        Elog_WARNING ''Unreferenced GpuTaskState leak'', Cb_cleanup 60, File_unmap 80,
        Cuda (CuCtxDestroy 11) 0, Cuda (CuCtxDestroy 12) 0,
        Cuda (CuCtxSetCurrent None) 0, MemoryContextDelete 40]"
    by (simp add: new_events_def shared_two_releases_trace shared_fields)
  from started_two_acquires started_fresh a1 shared_fields(6) shared_fields(7) s0 k1
    shared_two_releases tr l2 h2 d2 f2
  show ?thesis by blast
qed

section \<open>The cleanup hook run twice\<close>

lemma chain_find_valid:
  "\<forall>p\<in>set ps. h p \<noteq> None \<Longrightarrow> chain_find h r ps \<noteq> Inl er"
  by (induction ps) (auto split: option.splits)

lemma hook_finds_nothing:
  assumes "\<forall>p\<in>set (gcontext_hash s (gpucontext_hash_index e (CurrentResourceOwner e))).
             \<exists>c. gcontexts s p = Some c \<and> resowner c \<noteq> CurrentResourceOwner e"
  shows "gpucontext_cleanup_callback e RESOURCE_RELEASE_AFTER_LOCKS is_commit is_toplevel s =
           (Inr (), s\<lparr>trace := trace s @ [SpinLockAcquire gcontext_lock,
                                             SpinLockRelease gcontext_lock]\<rparr>)"
  using assms by (auto simp: gpucontext_cleanup_callback_def Let_def chain_find_none emit_def)

text \<open>
  The hook run twice for the same scope. If every node of the scope's chain is a live
  context and at most the context \<open>g\<close> belongs to the scope, then whatever the first
  run did (found nothing, or unlinked \<open>g\<close> and tore it down, with or without driver
  failures), the second run finds nothing: it only takes and drops the lock.
\<close>

lemma cleanup_hook_twice:
  assumes "\<forall>p\<in>set (gcontext_hash s (gpucontext_hash_index e (CurrentResourceOwner e))).
             \<exists>c. gcontexts s p = Some c \<and> (resowner c = CurrentResourceOwner e \<longrightarrow> p = g)"
  shows "gpucontext_cleanup_callback e RESOURCE_RELEASE_AFTER_LOCKS is_commit' is_toplevel'
           (snd (gpucontext_cleanup_callback e RESOURCE_RELEASE_AFTER_LOCKS is_commit is_toplevel s))
         = (Inr (),
            (snd (gpucontext_cleanup_callback e RESOURCE_RELEASE_AFTER_LOCKS is_commit is_toplevel s))
              \<lparr>trace := trace (snd (gpucontext_cleanup_callback e RESOURCE_RELEASE_AFTER_LOCKS
                                     is_commit is_toplevel s))
                         @ [SpinLockAcquire gcontext_lock, SpinLockRelease gcontext_lock]\<rparr>)"
proof -
  let ?r = "CurrentResourceOwner e"
  let ?h = "gpucontext_hash_index e ?r"
  let ?s1 = "snd (gpucontext_cleanup_callback e RESOURCE_RELEASE_AFTER_LOCKS is_commit is_toplevel s)"
  have "\<forall>p\<in>set (gcontext_hash ?s1 ?h). \<exists>c. gcontexts ?s1 p = Some c \<and> resowner c \<noteq> ?r"
  proof (cases "chain_find (gcontexts s) ?r (gcontext_hash s ?h)")
    case (Inl er)
    moreover have "\<forall>p\<in>set (gcontext_hash s ?h). gcontexts s p \<noteq> None"
      using assms by auto
    ultimately show ?thesis using chain_find_valid by blast
  next
    case (Inr found)
    show ?thesis
    proof (cases found)
      case None
      with Inr have s1: "?s1 = emit (SpinLockRelease gcontext_lock)
                                 (emit (SpinLockAcquire gcontext_lock) s)"
        by (simp add: gpucontext_cleanup_callback_def Let_def)
      from chain_find_None_D[OF Inr[unfolded None]] show ?thesis
        by (simp add: s1)
    next
      case (Some g')
      from chain_find_Some[OF Inr[unfolded Some]] assms have g': "g' = g" by auto
      let ?X = "(if is_commit
                 then emit (Elog_WARNING ''Probably, someone forgot to put GpuContext'')
                        (emit (SpinLockRelease gcontext_lock)
                           (unlink_chain g (clear_last g (emit (SpinLockAcquire gcontext_lock) s))))
                 else emit (SpinLockRelease gcontext_lock)
                        (unlink_chain g (clear_last g (emit (SpinLockAcquire gcontext_lock) s))))"
      have s1: "?s1 = snd (pgstrom_release_gpucontext e g is_commit ?X)"
        using Inr Some g' by (simp add: gpucontext_cleanup_callback_def Let_def)
      show ?thesis
      proof
        fix p assume "p \<in> set (gcontext_hash ?s1 ?h)"
        then have "p \<in> set (removeAll g (gcontext_hash s ?h))"
          using teardown_frame[of e g is_commit ?X p] by (simp add: s1 split: if_splits)
        then have pg: "p \<noteq> g" and pin: "p \<in> set (gcontext_hash s ?h)" by auto
        from assms pin pg obtain c where c: "gcontexts s p = Some c" "resowner c \<noteq> ?r"
          by blast
        have "gcontexts ?s1 p = gcontexts s p"
          using teardown_frame[of e g is_commit ?X p] pg by (simp add: s1 split: if_splits)
        with c show "\<exists>c. gcontexts ?s1 p = Some c \<and> resowner c \<noteq> ?r" by simp
      qed
    qed
  qed
  then show ?thesis by (rule hook_finds_nothing)
qed

end
